theory Spec2Isabelle
  imports Complex_Main "HOL-Library.Word"
begin

unbundle bit_operations_syntax

section \<open>The session store of only-context (src/plugin/src/shared/session-store.ts)\<close>

text \<open>
  The store keeps, for every session, five files in one directory, all named after
  \<open>safeSessionFilename sessionId\<close>: the metadata (\<open>.json\<close>), the observation log
  (\<open>.observations.jsonl\<close>), the log's lock (\<open>.lock\<close>), the counter of pending
  background jobs (\<open>.pending\<close>) and the counter's lock (\<open>.pending.lock\<close>).

  Strings are lists of 8-bit code units. Time stamps (\<open>Date.now()\<close>, \<open>mtimeMs\<close>, the
  ISO strings of \<open>toISOString()\<close>) are integers, in milliseconds since the epoch, and
  the counter is an unbounded integer. Every function takes the store and returns the
  new one. What a function reads from outside the store is an argument of it: the clock,
  whether a lock is acquired, whether a write succeeds, what the other processes let a
  poll of the counter see. A read throws on a file that is marked unreadable; creating,
  replacing and unlinking files succeed.
\<close>

subsection \<open>Characters and strings of JavaScript\<close>

definition code_unit :: "char \<Rightarrow> nat" where
  "code_unit c = of_char c"

text \<open>The character class \<open>[a-zA-Z0-9]\<close> of the regular expression in \<open>safeSessionFilename\<close>.\<close>

definition is_alnum :: "char \<Rightarrow> bool" where
  "is_alnum c = (let n = code_unit c in
     (97 \<le> n \<and> n \<le> 122) \<or> (65 \<le> n \<and> n \<le> 90) \<or> (48 \<le> n \<and> n \<le> 57))"

text \<open>\<open>toLowerCase()\<close>, on the characters that are left after the replacement.\<close>

definition to_lower :: "char \<Rightarrow> char" where
  "to_lower c = (let n = code_unit c in if 65 \<le> n \<and> n \<le> 90 then char_of (n + 32) else c)"

text \<open>\<open>StrWhiteSpaceChar\<close> below U+0100: tab, LF, VT, FF, CR, space, no-break space.\<close>

definition is_space :: "char \<Rightarrow> bool" where
  "is_space c = (let n = code_unit c in (9 \<le> n \<and> n \<le> 13) \<or> n = 32 \<or> n = 160)"

definition is_digit :: "char \<Rightarrow> bool" where
  "is_digit c = (let n = code_unit c in 48 \<le> n \<and> n \<le> 57)"

text \<open>\<open>String.prototype.trim()\<close>\<close>

definition trim :: "string \<Rightarrow> string" where
  "trim s = rev (dropWhile is_space (rev (dropWhile is_space s)))"

text \<open>\<open>content.split('\n')\<close>: the pieces between line feeds, always at least one.\<close>

fun split_lines :: "string \<Rightarrow> string list" where
  "split_lines [] = [[]]"
| "split_lines (c # cs) =
     (if c = CHR 0x0A then [] # split_lines cs
      else (case split_lines cs of l # ls \<Rightarrow> (c # l) # ls | [] \<Rightarrow> [[c]]))"

subsection \<open>SHA-256 (\<open>crypto.createHash('sha256')\<close>, FIPS 180-4)\<close>

type_synonym u32 = "32 word"

definition K256 :: "u32 list" where
  "K256 = [
   0x428A2F98, 0x71374491, 0xB5C0FBCF, 0xE9B5DBA5, 0x3956C25B, 0x59F111F1, 0x923F82A4, 0xAB1C5ED5,
   0xD807AA98, 0x12835B01, 0x243185BE, 0x550C7DC3, 0x72BE5D74, 0x80DEB1FE, 0x9BDC06A7, 0xC19BF174,
   0xE49B69C1, 0xEFBE4786, 0x0FC19DC6, 0x240CA1CC, 0x2DE92C6F, 0x4A7484AA, 0x5CB0A9DC, 0x76F988DA,
   0x983E5152, 0xA831C66D, 0xB00327C8, 0xBF597FC7, 0xC6E00BF3, 0xD5A79147, 0x06CA6351, 0x14292967,
   0x27B70A85, 0x2E1B2138, 0x4D2C6DFC, 0x53380D13, 0x650A7354, 0x766A0ABB, 0x81C2C92E, 0x92722C85,
   0xA2BFE8A1, 0xA81A664B, 0xC24B8B70, 0xC76C51A3, 0xD192E819, 0xD6990624, 0xF40E3585, 0x106AA070,
   0x19A4C116, 0x1E376C08, 0x2748774C, 0x34B0BCB5, 0x391C0CB3, 0x4ED8AA4A, 0x5B9CCA4F, 0x682E6FF3,
   0x748F82EE, 0x78A5636F, 0x84C87814, 0x8CC70208, 0x90BEFFFA, 0xA4506CEB, 0xBEF9A3F7, 0xC67178F2]"

definition rotr :: "nat \<Rightarrow> u32 \<Rightarrow> u32" where
  "rotr n x = drop_bit n x OR push_bit (32 - n) x"

definition Ch :: "u32 \<Rightarrow> u32 \<Rightarrow> u32 \<Rightarrow> u32" where
  "Ch x y z = (x AND y) XOR (NOT x AND z)"

definition Maj :: "u32 \<Rightarrow> u32 \<Rightarrow> u32 \<Rightarrow> u32" where
  "Maj x y z = (x AND y) XOR (x AND z) XOR (y AND z)"

definition bsig0 :: "u32 \<Rightarrow> u32" where
  "bsig0 x = rotr 2 x XOR rotr 13 x XOR rotr 22 x"

definition bsig1 :: "u32 \<Rightarrow> u32" where
  "bsig1 x = rotr 6 x XOR rotr 11 x XOR rotr 25 x"

definition ssig0 :: "u32 \<Rightarrow> u32" where
  "ssig0 x = rotr 7 x XOR rotr 18 x XOR drop_bit 3 x"

definition ssig1 :: "u32 \<Rightarrow> u32" where
  "ssig1 x = rotr 17 x XOR rotr 19 x XOR drop_bit 10 x"

text \<open>Padding: the byte 0x80, zeros up to 56 modulo 64, the bit length in 8 bytes.\<close>

definition len_bytes :: "64 word \<Rightarrow> 8 word list" where
  "len_bytes n = map (\<lambda>i. ucast (drop_bit (56 - 8 * i) n)) [0..<8]"

definition sha_pad :: "8 word list \<Rightarrow> 8 word list" where
  "sha_pad bs = bs @ [0x80] @ replicate ((119 - length bs mod 64) mod 64) 0
                  @ len_bytes (word_of_nat (8 * length bs))"

fun be_words :: "8 word list \<Rightarrow> u32 list" where
  "be_words (a # b # c # d # r) =
     (push_bit 24 (ucast a) OR push_bit 16 (ucast b) OR push_bit 8 (ucast c) OR ucast d)
       # be_words r"
| "be_words _ = []"

text \<open>The message schedule: \<open>schedule 48\<close> extends the 16 words of a block to 64.\<close>

fun schedule :: "nat \<Rightarrow> u32 list \<Rightarrow> u32 list" where
  "schedule 0 w = w"
| "schedule (Suc n) w =
     schedule n (w @ [ssig1 (w ! (length w - 2)) + w ! (length w - 7)
                      + ssig0 (w ! (length w - 15)) + w ! (length w - 16)])"

type_synonym hstate = "u32 \<times> u32 \<times> u32 \<times> u32 \<times> u32 \<times> u32 \<times> u32 \<times> u32"

fun round256 :: "hstate \<Rightarrow> u32 \<times> u32 \<Rightarrow> hstate" where
  "round256 (a, b, c, d, e, f, g, h) (k, w) =
     (let t1 = h + bsig1 e + Ch e f g + k + w;
          t2 = bsig0 a + Maj a b c
      in (t1 + t2, a, b, c, d + t1, e, f, g))"

fun hadd :: "hstate \<Rightarrow> hstate \<Rightarrow> hstate" where
  "hadd (a, b, c, d, e, f, g, h) (a', b', c', d', e', f', g', h') =
     (a + a', b + b', c + c', d + d', e + e', f + f', g + g', h + h')"

definition compress :: "hstate \<Rightarrow> u32 list \<Rightarrow> hstate" where
  "compress hs blk = hadd hs (foldl round256 hs (zip K256 (schedule 48 blk)))"

fun blocks :: "nat \<Rightarrow> u32 list \<Rightarrow> hstate \<Rightarrow> hstate" where
  "blocks 0 ws hs = hs"
| "blocks (Suc n) ws hs = blocks n (drop 16 ws) (compress hs (take 16 ws))"

definition H256 :: hstate where
  "H256 = (0x6A09E667, 0xBB67AE85, 0x3C6EF372, 0xA54FF53A,
           0x510E527F, 0x9B05688C, 0x1F83D9AB, 0x5BE0CD19)"

definition sha256 :: "8 word list \<Rightarrow> hstate" where
  "sha256 bs = (let ws = be_words (sha_pad bs) in blocks (length ws div 16) ws H256)"

text \<open>\<open>digest('hex')\<close>: eight hexadecimal digits for each of the eight words.\<close>

definition hex_digit :: "nat \<Rightarrow> char" where
  "hex_digit n = (''0123456789abcdef'') ! (n mod 16)"

definition hex_word :: "u32 \<Rightarrow> string" where
  "hex_word w = map (\<lambda>i. hex_digit (unat (drop_bit (28 - 4 * i) w AND 0xF))) [0..<8]"

fun hex_digest :: "hstate \<Rightarrow> string" where
  "hex_digest (a, b, c, d, e, f, g, h) =
     hex_word a @ hex_word b @ hex_word c @ hex_word d @
     hex_word e @ hex_word f @ hex_word g @ hex_word h"

text \<open>\<open>update(sessionId)\<close> hashes the UTF-8 bytes of the string: one byte for a code unit
  below 0x80, two bytes for one below 0x100.\<close>

definition utf8 :: "string \<Rightarrow> 8 word list" where
  "utf8 s = concat (map (\<lambda>c. let n = code_unit c in
       if n < 128 then [word_of_nat n]
       else [word_of_nat (192 + n div 64), word_of_nat (128 + n mod 64)]) s)"

definition sha256_hex :: "string \<Rightarrow> string" where
  "sha256_hex s = hex_digest (sha256 (utf8 s))"

subsection \<open>Derived file names\<close>

text \<open>
  \<^verbatim>\<open>const hash = crypto.createHash('sha256').update(sessionId).digest('hex').substring(0, 16);\<close>
  \<^verbatim>\<open>const prefix = sessionId.substring(0, 8).replace(/[^a-zA-Z0-9]/g, '').toLowerCase() || 'session';\<close>
  \<^verbatim>\<open>return `${prefix}_${hash}`;\<close>
\<close>

definition id_hash :: "string \<Rightarrow> string" where
  "id_hash sessionId = take 16 (sha256_hex sessionId)"

definition id_prefix :: "string \<Rightarrow> string" where
  "id_prefix sessionId =
     (let p = map to_lower (filter is_alnum (take 8 sessionId))
      in if p = [] then ''session'' else p)"

definition safeSessionFilename :: "string \<Rightarrow> string" where
  "safeSessionFilename sessionId = id_prefix sessionId @ ''_'' @ id_hash sessionId"

text \<open>The characters a derived name is made of, besides the underscore: \<open>[a-z0-9]\<close>.\<close>

definition is_name_char :: "char \<Rightarrow> bool" where
  "is_name_char c = (let n = code_unit c in (97 \<le> n \<and> n \<le> 122) \<or> (48 \<le> n \<and> n \<le> 57))"

subsection \<open>JSON values and the property reads of JavaScript\<close>

text \<open>
  \<open>JSON.parse\<close> and \<open>JSON.stringify\<close> are built into the language; the store's functions
  take them as the parameters \<open>parse\<close> (\<open>None\<close> when \<open>JSON.parse\<close> throws) and
  \<open>stringify\<close>. An object lists each of its own properties once.
\<close>

datatype json =
    JNull
  | JBool bool
  | JNum real
  | JStr string
  | JArr "json list"
  | JObj "(string \<times> json) list"

datatype exn = TypeError

text \<open>\<open>v.k\<close> for a value \<open>v\<close> that is not \<open>null\<close> (reading a property of \<open>null\<close> throws):
  \<open>None\<close> is \<open>undefined\<close>. Numbers, booleans, strings and arrays have none of the
  properties the store reads.\<close>

fun get_prop :: "json \<Rightarrow> string \<Rightarrow> json option" where
  "get_prop (JObj kvs) k = map_of kvs k"
| "get_prop _ k = None"

fun truthy :: "json \<Rightarrow> bool" where
  "truthy JNull = False"
| "truthy (JBool b) = b"
| "truthy (JNum n) = (n \<noteq> 0)"
| "truthy (JStr s) = (s \<noteq> [])"
| "truthy (JArr _) = True"
| "truthy (JObj _) = True"

fun truthy_opt :: "json option \<Rightarrow> bool" where
  "truthy_opt None = False"
| "truthy_opt (Some v) = truthy v"

text \<open>Values that a \<open>Set\<close> compares by value; objects and arrays are compared by
  reference, and every parsed object is a new one.\<close>

fun is_primitive :: "json \<Rightarrow> bool" where
  "is_primitive (JArr _) = False"
| "is_primitive (JObj _) = False"
| "is_primitive _ = True"

definition set_add :: "json list \<Rightarrow> json \<Rightarrow> json list" where
  "set_add xs v = (if is_primitive v \<and> v \<in> set xs then xs else xs @ [v])"

subsection \<open>Numbers in the counter file\<close>

definition digit_char :: "nat \<Rightarrow> char" where
  "digit_char d = char_of (48 + d)"

fun digits_of_nat :: "nat \<Rightarrow> string" where
  "digits_of_nat n =
     (if n < 10 then [digit_char n] else digits_of_nat (n div 10) @ [digit_char (n mod 10)])"

declare digits_of_nat.simps [simp del]

text \<open>The template literal \<^verbatim>\<open>`${n}`\<close> of an integer.\<close>

definition number_to_string :: "int \<Rightarrow> string" where
  "number_to_string i =
     (if i < 0 then CHR ''-'' # digits_of_nat (nat (- i)) else digits_of_nat (nat i))"

definition digits_value :: "string \<Rightarrow> int" where
  "digits_value z = foldl (\<lambda>a c. 10 * a + (int (code_unit c) - 48)) 0 z"

text \<open>\<open>parseInt(s, 10)\<close>: leading white space, a sign, then the longest run of digits;
  \<open>None\<close> is \<open>NaN\<close>.\<close>

definition parseInt10 :: "string \<Rightarrow> int option" where
  "parseInt10 s =
     (let s1 = dropWhile is_space s;
          (neg, s2) = (case s1 of
              [] \<Rightarrow> (False, [])
            | c # r \<Rightarrow> if c = CHR ''-'' then (True, r)
                       else if c = CHR ''+'' then (False, r) else (False, s1));
          z = takeWhile is_digit s2
      in if z = [] then None else Some (if neg then - digits_value z else digits_value z))"

subsection \<open>Session metadata, sessions and files\<close>

datatype status = Active | Completed | Stopped

datatype endType = Stop | End

text \<open>\<open>interface SessionMetadata\<close>; an optional field is an \<open>option\<close>.\<close>

record SessionMetadata =
  mId :: string
  mProject :: string
  mProjectPath :: string
  mStartTime :: int
  mEndTime :: "int option"
  mDurationMinutes :: "int option"
  mStatus :: status
  mSummary :: "string option"
  mLastUpdated :: int
  mPreCompactKnowledge :: "string list option"

text \<open>\<open>interface Session\<close> (src/plugin/src/shared/types.ts). The observations are the
  parsed lines of the log; \<open>filesModified\<close> lists the elements of a \<open>Set\<close> in the order
  of their insertion.\<close>

record Session =
  sId :: string
  sProject :: string
  sProjectPath :: string
  sStartTime :: int
  sEndTime :: "int option"
  sDurationMinutes :: "int option"
  sStatus :: status
  sObservations :: "json list"
  sSummary :: "string option"
  filesModified :: "json list"
  commandsRun :: nat
  errorsEncountered :: nat

text \<open>A file has a modification time and contents; \<open>readFileSync\<close> throws on
  \<open>Unreadable\<close>. The text of a metadata file either is the JSON of a metadata record
  or is not (\<open>JSON.parse\<close> throws, or returns \<open>null\<close>).\<close>

datatype 'a contents = Unreadable | Contents 'a

record 'a stored_file =
  mtimeMs :: int
  contents :: "'a contents"

datatype meta_text = NotJson | MetaJson SessionMetadata

record session_files =
  metaFile :: "meta_text stored_file option"
  obsFile :: "string stored_file option"
  lockFile :: bool
  pendingFile :: "string contents option"
  pendingLockFile :: bool

text \<open>The sessions directory: the files of each derived name.\<close>

type_synonym store = "string \<Rightarrow> session_files"

definition no_files :: session_files where
  "no_files = \<lparr>metaFile = None, obsFile = None, lockFile = False,
                pendingFile = None, pendingLockFile = False\<rparr>"

definition empty_store :: store where
  "empty_store = (\<lambda>_. no_files)"

subsection \<open>Reading and writing metadata\<close>

definition readSessionMetadata :: "store \<Rightarrow> string \<Rightarrow> SessionMetadata option" where
  "readSessionMetadata st sessionId =
     (case metaFile (st (safeSessionFilename sessionId)) of
        None \<Rightarrow> None
      | Some f \<Rightarrow>
          (case contents f of
             Unreadable \<Rightarrow> None
           | Contents NotJson \<Rightarrow> None
           | Contents (MetaJson metadata) \<Rightarrow> Some metadata))"

text \<open>\<open>writeSessionMetadata\<close> stamps \<open>lastUpdated\<close> and replaces the file named after
  \<open>metadata.id\<close>.\<close>

definition writeSessionMetadata :: "int \<Rightarrow> store \<Rightarrow> SessionMetadata \<Rightarrow> store" where
  "writeSessionMetadata now st metadata =
     (let k = safeSessionFilename (mId metadata)
      in st(k := (st k)\<lparr>metaFile :=
           Some \<lparr>mtimeMs = now, contents = Contents (MetaJson (metadata\<lparr>mLastUpdated := now\<rparr>))\<rparr>\<rparr>))"

subsection \<open>The observation log\<close>

text \<open>
  \<^verbatim>\<open>if (obs.id && obs.timestamp && obs.type && obs.tool !== undefined)\<close>:
  the first read throws when the line is the JSON \<open>null\<close>.
\<close>

definition has_required_fields :: "json \<Rightarrow> exn + bool" where
  "has_required_fields obs =
     (if obs = JNull then Inl TypeError
      else Inr (truthy_opt (get_prop obs ''id'') \<and> truthy_opt (get_prop obs ''timestamp'')
                \<and> truthy_opt (get_prop obs ''type'') \<and> get_prop obs ''tool'' \<noteq> None))"

text \<open>One turn of the loop over the lines: \<open>None\<close> when the line is skipped (empty after
  \<open>trim\<close>, an exception caught, or a required field missing).\<close>

definition parse_line :: "(string \<Rightarrow> json option) \<Rightarrow> string \<Rightarrow> json option" where
  "parse_line parse line =
     (let trimmed = trim line
      in if trimmed = [] then None
         else (case parse trimmed of
                 None \<Rightarrow> None
               | Some obs \<Rightarrow>
                   (case has_required_fields obs of
                      Inl e \<Rightarrow> None
                    | Inr ok \<Rightarrow> if ok then Some obs else None)))"

fun parse_lines :: "(string \<Rightarrow> json option) \<Rightarrow> string list \<Rightarrow> json list" where
  "parse_lines parse [] = []"
| "parse_lines parse (line # lines) =
     (case parse_line parse line of
        None \<Rightarrow> parse_lines parse lines
      | Some obs \<Rightarrow> obs # parse_lines parse lines)"

definition readObservations :: "(string \<Rightarrow> json option) \<Rightarrow> store \<Rightarrow> string \<Rightarrow> json list" where
  "readObservations parse st sessionId =
     (case obsFile (st (safeSessionFilename sessionId)) of
        None \<Rightarrow> []
      | Some f \<Rightarrow>
          (case contents f of
             Unreadable \<Rightarrow> []
           | Contents content \<Rightarrow> parse_lines parse (split_lines content)))"

text \<open>\<open>appendFileSync\<close>: the file is created when it is absent.\<close>

definition append_file :: "int \<Rightarrow> string stored_file option \<Rightarrow> string \<Rightarrow> string stored_file" where
  "append_file now f line =
     (case f of
        None \<Rightarrow> \<lparr>mtimeMs = now, contents = Contents line\<rparr>
      | Some g \<Rightarrow>
          \<lparr>mtimeMs = now,
           contents = (case contents g of
                         Unreadable \<Rightarrow> Unreadable
                       | Contents c \<Rightarrow> Contents (c @ line))\<rparr>)"

text \<open>\<open>appendObservation\<close>. Whether the lock is acquired (\<open>gotLock\<close>) and whether the
  write succeeds (\<open>writeOk\<close>) depend on the other processes and on the file system;
  a lock that was acquired is released in the \<open>finally\<close> block.\<close>

definition appendObservation ::
  "(json \<Rightarrow> string) \<Rightarrow> bool \<Rightarrow> bool \<Rightarrow> int \<Rightarrow> store \<Rightarrow> string \<Rightarrow> json \<Rightarrow> bool \<times> store" where
  "appendObservation stringify gotLock writeOk now st sessionId observation =
     (if \<not> gotLock then (False, st)
      else let k = safeSessionFilename sessionId;
               line = stringify observation @ [CHR 0x0A]
           in if writeOk
              then (True, st(k := (st k)\<lparr>obsFile := Some (append_file now (obsFile (st k)) line),
                                          lockFile := False\<rparr>))
              else (False, st(k := (st k)\<lparr>lockFile := False\<rparr>)))"

definition getSessionLastActivity :: "store \<Rightarrow> string \<Rightarrow> int" where
  "getSessionLastActivity st sessionId =
     (let k = safeSessionFilename sessionId;
          lastActivity = 0;
          lastActivity = (case metaFile (st k) of
                            None \<Rightarrow> lastActivity
                          | Some f \<Rightarrow> max lastActivity (mtimeMs f));
          lastActivity = (case obsFile (st k) of
                            None \<Rightarrow> lastActivity
                          | Some f \<Rightarrow> max lastActivity (mtimeMs f))
      in lastActivity)"

subsection \<open>Reading a session\<close>

text \<open>The loop of \<open>readSession\<close> over the observations; the state is
  \<open>(filesModified, commandsRun, errorsEncountered)\<close>. Reading \<open>path\<close> of a \<open>data\<close> that
  is \<open>undefined\<close> or \<open>null\<close> throws, and \<open>readSession\<close> does not catch it.\<close>

fun count_observations ::
  "json list \<Rightarrow> json list \<times> nat \<times> nat \<Rightarrow> exn + (json list \<times> nat \<times> nat)" where
  "count_observations [] acc = Inr acc"
| "count_observations (obs # rest) (files, commands, errors) =
     (let errors' = (if get_prop obs ''type'' = Some (JStr ''error'')
                        \<or> truthy_opt (get_prop obs ''isError'')
                     then errors + 1 else errors)
      in if get_prop obs ''type'' = Some (JStr ''file_edit'')
         then (case get_prop obs ''data'' of
                 None \<Rightarrow> Inl TypeError
               | Some JNull \<Rightarrow> Inl TypeError
               | Some d \<Rightarrow>
                   (case get_prop d ''path'' of
                      None \<Rightarrow> count_observations rest (files, commands, errors')
                    | Some filePath \<Rightarrow>
                        count_observations rest
                          (if truthy filePath then set_add files filePath else files,
                           commands, errors')))
         else if get_prop obs ''type'' = Some (JStr ''command'')
         then count_observations rest (files, commands + 1, errors')
         else count_observations rest (files, commands, errors'))"

definition readSession ::
  "(string \<Rightarrow> json option) \<Rightarrow> store \<Rightarrow> string \<Rightarrow> exn + Session option" where
  "readSession parse st sessionId =
     (case readSessionMetadata st sessionId of
        None \<Rightarrow> Inr None
      | Some metadata \<Rightarrow>
          (let observations = readObservations parse st sessionId
           in case count_observations observations ([], 0, 0) of
                Inl e \<Rightarrow> Inl e
              | Inr (files, commands, errors) \<Rightarrow>
                  Inr (Some \<lparr>sId = mId metadata,
                             sProject = mProject metadata,
                             sProjectPath = mProjectPath metadata,
                             sStartTime = mStartTime metadata,
                             sEndTime = mEndTime metadata,
                             sDurationMinutes = mDurationMinutes metadata,
                             sStatus = mStatus metadata,
                             sObservations = observations,
                             sSummary = mSummary metadata,
                             filesModified = files,
                             commandsRun = commands,
                             errorsEncountered = errors\<rparr>)))"

subsection \<open>The life cycle of a session\<close>

text \<open>\<open>startSession\<close>; \<open>now\<close> is the time in the record, \<open>tWrite\<close> the time of the
  write.\<close>

definition startSession ::
  "int \<Rightarrow> int \<Rightarrow> store \<Rightarrow> string \<Rightarrow> string \<Rightarrow> string \<Rightarrow> Session \<times> store" where
  "startSession now tWrite st sessionId project projectPath =
     (let metadata = \<lparr>mId = sessionId, mProject = project, mProjectPath = projectPath,
                       mStartTime = now, mEndTime = None, mDurationMinutes = None,
                       mStatus = Active, mSummary = None, mLastUpdated = now,
                       mPreCompactKnowledge = None\<rparr>
      in (\<lparr>sId = sessionId, sProject = project, sProjectPath = projectPath,
            sStartTime = mStartTime metadata, sEndTime = None, sDurationMinutes = None,
            sStatus = Active, sObservations = [], sSummary = None,
            filesModified = [], commandsRun = 0, errorsEncountered = 0\<rparr>,
          writeSessionMetadata tWrite st metadata))"

definition addObservation ::
  "(json \<Rightarrow> string) \<Rightarrow> bool \<Rightarrow> bool \<Rightarrow> int \<Rightarrow> store \<Rightarrow> string \<Rightarrow> json \<Rightarrow> bool \<times> store" where
  "addObservation stringify gotLock writeOk now st sessionId observation =
     (case readSessionMetadata st sessionId of
        None \<Rightarrow> (False, st)
      | Some metadata \<Rightarrow>
          if mStatus metadata \<noteq> Active then (False, st)
          else appendObservation stringify gotLock writeOk now st sessionId observation)"

text \<open>\<open>Math.round((end.getTime() - start.getTime()) / 60000)\<close>: to the nearest minute,
  a half upwards.\<close>

definition round_minutes :: "int \<Rightarrow> int" where
  "round_minutes ms = (ms + 30000) div 60000"

definition endSession ::
  "(string \<Rightarrow> json option) \<Rightarrow> int \<Rightarrow> int \<Rightarrow> store \<Rightarrow> string \<Rightarrow> endType
     \<Rightarrow> (exn + Session option) \<times> store" where
  "endSession parse now tWrite st sessionId endType =
     (case readSessionMetadata st sessionId of
        None \<Rightarrow> (Inr None, st)
      | Some metadata \<Rightarrow>
          if mStatus metadata \<noteq> Active then (readSession parse st sessionId, st)
          else let metadata = metadata\<lparr>mEndTime := Some now\<rparr>;
                   metadata = metadata\<lparr>mStatus := (if endType = Stop then Stopped else Completed)\<rparr>;
                   metadata = metadata\<lparr>mDurationMinutes :=
                                Some (round_minutes (now - mStartTime metadata))\<rparr>;
                   st' = writeSessionMetadata tWrite st metadata
               in (readSession parse st' sessionId, st'))"

definition updateSessionSummary :: "int \<Rightarrow> store \<Rightarrow> string \<Rightarrow> string \<Rightarrow> bool \<times> store" where
  "updateSessionSummary tWrite st sessionId summary =
     (case readSessionMetadata st sessionId of
        None \<Rightarrow> (False, st)
      | Some metadata \<Rightarrow>
          (True, writeSessionMetadata tWrite st (metadata\<lparr>mSummary := Some summary\<rparr>)))"

definition updatePreCompactKnowledge ::
  "int \<Rightarrow> store \<Rightarrow> string \<Rightarrow> string list \<Rightarrow> bool \<times> store" where
  "updatePreCompactKnowledge tWrite st sessionId paths =
     (case readSessionMetadata st sessionId of
        None \<Rightarrow> (False, st)
      | Some metadata \<Rightarrow>
          (True, writeSessionMetadata tWrite st
             (metadata\<lparr>mPreCompactKnowledge :=
                Some ((case mPreCompactKnowledge metadata of None \<Rightarrow> [] | Some ps \<Rightarrow> ps)
                      @ paths)\<rparr>)))"

text \<open>The operations that change the metadata of a session that exists.\<close>

datatype store_op =
    EndSession int int string endType
  | UpdateSessionSummary int string string
  | UpdatePreCompactKnowledge int string "string list"

fun apply_op :: "(string \<Rightarrow> json option) \<Rightarrow> store \<Rightarrow> store_op \<Rightarrow> store" where
  "apply_op parse st (EndSession now tWrite sessionId endType) =
     snd (endSession parse now tWrite st sessionId endType)"
| "apply_op parse st (UpdateSessionSummary tWrite sessionId summary) =
     snd (updateSessionSummary tWrite st sessionId summary)"
| "apply_op parse st (UpdatePreCompactKnowledge tWrite sessionId paths) =
     snd (updatePreCompactKnowledge tWrite st sessionId paths)"

definition op_session :: "store_op \<Rightarrow> string" where
  "op_session operation =
     (case operation of
        EndSession now tWrite sessionId endType \<Rightarrow> sessionId
      | UpdateSessionSummary tWrite sessionId summary \<Rightarrow> sessionId
      | UpdatePreCompactKnowledge tWrite sessionId paths \<Rightarrow> sessionId)"

text \<open>The status that is stored under a derived name, when the file there parses.\<close>

definition stored_metadata :: "store \<Rightarrow> string \<Rightarrow> SessionMetadata option" where
  "stored_metadata st k =
     (case metaFile (st k) of
        Some f \<Rightarrow> (case contents f of Contents (MetaJson m) \<Rightarrow> Some m | _ \<Rightarrow> None)
      | None \<Rightarrow> None)"

text \<open>Every metadata file is the one named after the \<open>id\<close> it holds, as
  \<open>writeSessionMetadata\<close> leaves it.\<close>

definition filed_under_id :: "store \<Rightarrow> bool" where
  "filed_under_id st = (\<forall>k m. stored_metadata st k = Some m \<longrightarrow> safeSessionFilename (mId m) = k)"

subsection \<open>The counter of pending background jobs\<close>

text \<open>\<open>getPendingJobCount\<close>, on the counter file as the call finds it.\<close>

definition getPendingJobCount :: "string contents option \<Rightarrow> bool \<Rightarrow> int" where
  "getPendingJobCount pending conservative =
     (case pending of
        None \<Rightarrow> 0
      | Some Unreadable \<Rightarrow> if conservative then 1 else 0
      | Some (Contents text) \<Rightarrow>
          (case parseInt10 (trim text) of
             None \<Rightarrow> if conservative then 1 else 0
           | Some count \<Rightarrow> count))"

text \<open>\<open>gotLock\<close> is the result of \<open>acquirePendingLock\<close>; the lock is released in the
  \<open>finally\<close> block.\<close>

definition markBackgroundJobStarted :: "bool \<Rightarrow> store \<Rightarrow> string \<Rightarrow> store" where
  "markBackgroundJobStarted gotLock st sessionId =
     (if \<not> gotLock then st
      else let k = safeSessionFilename sessionId;
               currentCount = getPendingJobCount (pendingFile (st k)) False
           in st(k := (st k)\<lparr>pendingFile := Some (Contents (number_to_string (currentCount + 1))),
                              pendingLockFile := False\<rparr>))"

definition markBackgroundJobCompleted :: "bool \<Rightarrow> store \<Rightarrow> string \<Rightarrow> store" where
  "markBackgroundJobCompleted gotLock st sessionId =
     (if \<not> gotLock then st
      else let k = safeSessionFilename sessionId;
               currentCount = getPendingJobCount (pendingFile (st k)) False
           in if currentCount \<le> 1
              then st(k := (st k)\<lparr>pendingFile := None, pendingLockFile := False\<rparr>)
              else st(k := (st k)\<lparr>pendingFile := Some (Contents (number_to_string (currentCount - 1))),
                                 pendingLockFile := False\<rparr>))"

text \<open>
  The loop that \<open>getPreCompactKnowledge\<close> and \<open>clearSessionFile\<close> both start with:
  \<^verbatim>\<open>while (Date.now() - startTime < maxWaitMs) {\<close>
  \<^verbatim>\<open>  const count = getPendingJobCount(pendingPath, true);\<close>
  \<^verbatim>\<open>  if (count <= 0) break;\<close>
  \<^verbatim>\<open>  ... wait 100 ms ... }\<close>
  Every turn has a \<open>poll\<close>: the clock at the test of the loop and the counter file as the
  other processes have left it at the read. The result is the way the loop ends and the
  number of polls before that one; \<open>None\<close> when the polls end before the loop does.
\<close>

record poll =
  pollTime :: int
  pollFile :: "string contents option"

datatype wait_exit = CounterClear | TimedOut

fun waitForPendingJobs :: "int \<Rightarrow> int \<Rightarrow> poll list \<Rightarrow> (wait_exit \<times> nat) option" where
  "waitForPendingJobs startTime maxWaitMs [] = None"
| "waitForPendingJobs startTime maxWaitMs (p # ps) =
     (if \<not> (pollTime p - startTime < maxWaitMs) then Some (TimedOut, 0)
      else if getPendingJobCount (pollFile p) True \<le> 0 then Some (CounterClear, 0)
      else map_option (\<lambda>(e, n). (e, Suc n)) (waitForPendingJobs startTime maxWaitMs ps))"

definition getPreCompactKnowledge ::
  "int \<Rightarrow> poll list \<Rightarrow> int \<Rightarrow> store \<Rightarrow> string \<Rightarrow> string list option" where
  "getPreCompactKnowledge startTime polls maxWaitMs st sessionId =
     (case waitForPendingJobs startTime maxWaitMs polls of
        None \<Rightarrow> None
      | Some _ \<Rightarrow>
          Some (case readSessionMetadata st sessionId of
                  None \<Rightarrow> []
                | Some metadata \<Rightarrow>
                    (case mPreCompactKnowledge metadata of None \<Rightarrow> [] | Some ps \<Rightarrow> ps)))"

text \<open>\<open>clearSessionFile\<close>: after the wait, the metadata, the log, the counter and the
  counter's lock are unlinked; the log's lock is unlinked by \<open>releaseLock\<close> when
  \<open>acquireLock\<close> succeeded and by the \<open>else\<close> branch of the \<open>finally\<close> block when not.\<close>

record clear_env =
  waitStart :: int
  waitPolls :: "poll list"
  lockAcquired :: bool

definition clearSessionFile :: "clear_env \<Rightarrow> int \<Rightarrow> store \<Rightarrow> string \<Rightarrow> store option" where
  "clearSessionFile env maxWaitMs st sessionId =
     (case waitForPendingJobs (waitStart env) maxWaitMs (waitPolls env) of
        None \<Rightarrow> None
      | Some _ \<Rightarrow>
          (let k = safeSessionFilename sessionId;
               files = (st k)\<lparr>metaFile := None, obsFile := None, pendingFile := None,
                              pendingLockFile := False\<rparr>;
               files = (if lockAcquired env then files\<lparr>lockFile := False\<rparr>
                        else files\<lparr>lockFile := False\<rparr>)
           in Some (st(k := files))))"

subsection \<open>The sweep of stale sessions\<close>

text \<open>The loop of \<open>cleanupStaleSessions\<close> over the metadata files that \<open>readdirSync\<close>
  listed, each with what \<open>clearSessionFile\<close> meets if it is called for it. An exception
  in a turn is caught and the file is skipped.\<close>

fun cleanup_loop ::
  "(string \<Rightarrow> json option) \<Rightarrow> int \<Rightarrow> int \<Rightarrow> int \<Rightarrow> (string \<times> clear_env) list
     \<Rightarrow> Session list \<Rightarrow> store \<Rightarrow> (Session list \<times> store) option" where
  "cleanup_loop parse now maxAge tEnd [] staleSessions st = Some (staleSessions, st)"
| "cleanup_loop parse now maxAge tEnd ((file, env) # files) staleSessions st =
     (case stored_metadata st file of
        None \<Rightarrow> cleanup_loop parse now maxAge tEnd files staleSessions st
      | Some metadata \<Rightarrow>
          (let lastActivity = getSessionLastActivity st (mId metadata)
           in if now - lastActivity > maxAge
              then (case readSession parse st (mId metadata) of
                      Inl e \<Rightarrow> cleanup_loop parse now maxAge tEnd files staleSessions st
                    | Inr found \<Rightarrow>
                        (let staleSessions' =
                               (case found of
                                  None \<Rightarrow> staleSessions
                                | Some session \<Rightarrow>
                                    staleSessions @
                                      [if sStatus session = Active
                                       then session\<lparr>sStatus := Stopped, sEndTime := Some tEnd\<rparr>
                                       else session])
                         in case clearSessionFile env 5000 st (mId metadata) of
                              None \<Rightarrow> None
                            | Some st' \<Rightarrow>
                                cleanup_loop parse now maxAge tEnd files staleSessions' st'))
              else cleanup_loop parse now maxAge tEnd files staleSessions st))"

text \<open>\<open>listing\<close> is \<open>None\<close> when the sessions directory does not exist.\<close>

definition cleanupStaleSessions ::
  "(string \<Rightarrow> json option) \<Rightarrow> int \<Rightarrow> int \<Rightarrow> int \<Rightarrow> (string \<times> clear_env) list option
     \<Rightarrow> store \<Rightarrow> (Session list \<times> store) option" where
  "cleanupStaleSessions parse now tEnd maxAgeHours listing st =
     (case listing of
        None \<Rightarrow> Some ([], st)
      | Some files \<Rightarrow>
          (let maxAge = maxAgeHours * 60 * 60 * 1000
           in cleanup_loop parse now maxAge tEnd files [] st))"

subsection \<open>Notions used to state the properties\<close>

text \<open>Calling an operation \<open>n\<close> times in a row.\<close>

fun call_times :: "nat \<Rightarrow> (store \<Rightarrow> store) \<Rightarrow> store \<Rightarrow> store" where
  "call_times 0 f st = st"
| "call_times (Suc n) f st = call_times n f (f st)"

text \<open>The counter file exists, but reading it throws or \<open>parseInt\<close> gives \<open>NaN\<close>.\<close>

definition unreadable_or_malformed :: "string contents option \<Rightarrow> bool" where
  "unreadable_or_malformed pending =
     (case pending of
        None \<Rightarrow> False
      | Some Unreadable \<Rightarrow> True
      | Some (Contents text) \<Rightarrow> parseInt10 (trim text) = None)"

text \<open>The counter file is absent, or holds a number that is zero or less.\<close>

definition absent_or_not_positive :: "string contents option \<Rightarrow> bool" where
  "absent_or_not_positive pending =
     (case pending of
        None \<Rightarrow> True
      | Some Unreadable \<Rightarrow> False
      | Some (Contents text) \<Rightarrow>
          (case parseInt10 (trim text) of None \<Rightarrow> False | Some count \<Rightarrow> count \<le> 0))"

text \<open>Four polls of the counter: a read that throws, a partial write, an empty file, no file.\<close>

definition demo_polls :: "poll list" where
  "demo_polls = [\<lparr>pollTime = 1000, pollFile = Some Unreadable\<rparr>,
                 \<lparr>pollTime = 1100, pollFile = Some (Contents ''x'')\<rparr>,
                 \<lparr>pollTime = 1200, pollFile = Some (Contents [])\<rparr>,
                 \<lparr>pollTime = 1300, pollFile = None\<rparr>]"

text \<open>A store with one session, \<open>s1\<close>, in a given status.\<close>

definition demo_metadata :: "status \<Rightarrow> SessionMetadata" where
  "demo_metadata s =
     \<lparr>mId = ''s1'', mProject = ''demo'', mProjectPath = ''/work/demo'',
      mStartTime = 1000, mEndTime = (if s = Active then None else Some 200000),
      mDurationMinutes = (if s = Active then None else Some 3),
      mStatus = s, mSummary = None, mLastUpdated = 200000,
      mPreCompactKnowledge = None\<rparr>"

definition demo_store :: "status \<Rightarrow> store" where
  "demo_store s =
     empty_store(safeSessionFilename ''s1'' :=
       no_files\<lparr>metaFile := Some \<lparr>mtimeMs = 200000,
                                      contents = Contents (MetaJson (demo_metadata s))\<rparr>\<rparr>)"

text \<open>The fields of the metadata that never change.\<close>

definition identity_fields :: "SessionMetadata \<Rightarrow> string \<times> string \<times> string" where
  "identity_fields m = (mId m, mProject m, mProjectPath m)"

definition stored_identity :: "store \<Rightarrow> string \<Rightarrow> (string \<times> string \<times> string) option" where
  "stored_identity st sessionId = map_option identity_fields (readSessionMetadata st sessionId)"

definition stored_status :: "store \<Rightarrow> string \<Rightarrow> status option" where
  "stored_status st k = map_option mStatus (stored_metadata st k)"

text \<open>Operations on the session \<open>s1\<close>, one after the other.\<close>

definition demo_ops :: "store_op list" where
  "demo_ops = [EndSession 900000 900001 ''s1'' Stop,
               UpdateSessionSummary 900002 ''s1'' ''summary'',
               UpdatePreCompactKnowledge 900003 ''s1'' [''a.md''],
               EndSession 900004 900005 ''s1'' End]"

text \<open>The text of a file from its lines: the inverse of \<open>split('\\n')\<close>.\<close>

fun join_lines :: "string list \<Rightarrow> string" where
  "join_lines [] = []"
| "join_lines [l] = l"
| "join_lines (l # ls) = l @ [CHR 0x0A] @ join_lines ls"

text \<open>A parsed line without one of the fields \<open>id\<close>, \<open>timestamp\<close>, \<open>type\<close>, \<open>tool\<close>.\<close>

definition lacks_required_field :: "json \<Rightarrow> bool" where
  "lacks_required_field obs =
     (get_prop obs ''id'' = None \<or> get_prop obs ''timestamp'' = None
      \<or> get_prop obs ''type'' = None \<or> get_prop obs ''tool'' = None)"

text \<open>Two records as \<open>JSON.stringify\<close> writes them, and a record cut short.\<close>

definition demo_line1 :: string where
  \<open>demo_line1 = ''{"id":"o1","timestamp":"t1","type":"command","tool":"Bash","isError":false,"data":{"command":"ls","exitCode":0}}''\<close>

definition demo_obs1 :: json where
  "demo_obs1 = JObj [(''id'', JStr ''o1''), (''timestamp'', JStr ''t1''), (''type'', JStr ''command''),
                     (''tool'', JStr ''Bash''), (''isError'', JBool False),
                     (''data'', JObj [(''command'', JStr ''ls''), (''exitCode'', JNum 0)])]"

definition demo_line2 :: string where
  \<open>demo_line2 = ''{"id":"o2","timestamp":"t2","type":"file_edit","tool":"Edit","isError":true,"data":{"path":"/a.ts"}}''\<close>

definition demo_obs2 :: json where
  "demo_obs2 = JObj [(''id'', JStr ''o2''), (''timestamp'', JStr ''t2''), (''type'', JStr ''file_edit''),
                     (''tool'', JStr ''Edit''), (''isError'', JBool True),
                     (''data'', JObj [(''path'', JStr ''/a.ts'')])]"

definition demo_bad_line :: string where
  \<open>demo_bad_line = ''{"partial": true''\<close>

text \<open>What \<open>JSON.parse\<close> does on the three lines above.\<close>

definition demo_parse :: "string \<Rightarrow> json option" where
  "demo_parse s = (if s = demo_line1 then Some demo_obs1
                   else if s = demo_line2 then Some demo_obs2
                   else None)"

definition demo_log_store :: store where
  "demo_log_store =
     (demo_store Active)(safeSessionFilename ''s1'' :=
        (demo_store Active (safeSessionFilename ''s1''))
          \<lparr>obsFile := Some \<lparr>mtimeMs = 300000,
                             contents = Contents (join_lines [demo_line1, demo_bad_line, demo_line2, []])\<rparr>\<rparr>)"

text \<open>The tests of the loop of \<open>readSession\<close>: the type of an observation, whether it
  counts as an error, and the path it adds to \<open>filesModified\<close>, if any.\<close>

definition has_type :: "string \<Rightarrow> json \<Rightarrow> bool" where
  "has_type t obs = (get_prop obs ''type'' = Some (JStr t))"

definition counts_as_error :: "json \<Rightarrow> bool" where
  "counts_as_error obs = (has_type ''error'' obs \<or> truthy_opt (get_prop obs ''isError''))"

definition edited_path :: "json \<Rightarrow> json option" where
  "edited_path obs =
     (if has_type ''file_edit'' obs
      then (case get_prop obs ''data'' of
              None \<Rightarrow> None
            | Some d \<Rightarrow>
                (case get_prop d ''path'' of
                   None \<Rightarrow> None
                 | Some p \<Rightarrow> if truthy p then Some p else None))
      else None)"

text \<open>What \<open>readSession\<close> returns for the session \<open>s1\<close> with the log above.\<close>

definition demo_session :: Session where
  "demo_session =
     \<lparr>sId = ''s1'', sProject = ''demo'', sProjectPath = ''/work/demo'',
      sStartTime = 1000, sEndTime = None, sDurationMinutes = None,
      sStatus = Active, sObservations = [demo_obs1, demo_obs2], sSummary = None,
      filesModified = [JStr ''/a.ts''], commandsRun = 1, errorsEncountered = 1\<rparr>"

text \<open>The last activity under a derived name: the later of the modification times of the
  metadata file and of the log, of those that exist, and at least 0.\<close>

definition key_last_activity :: "store \<Rightarrow> string \<Rightarrow> int" where
  "key_last_activity st k =
     max 0 (max (case metaFile (st k) of None \<Rightarrow> 0 | Some f \<Rightarrow> mtimeMs f)
                (case obsFile (st k) of None \<Rightarrow> 0 | Some f \<Rightarrow> mtimeMs f))"

text \<open>\<open>swept now maxAge st st'\<close>: the files under a derived name are in \<open>st'\<close> as they are in
  \<open>st\<close>, or the metadata and the log are gone and the last activity was more than
  \<open>maxAge\<close> before \<open>now\<close>.\<close>

definition swept :: "int \<Rightarrow> int \<Rightarrow> store \<Rightarrow> store \<Rightarrow> bool" where
  "swept now maxAge st st' =
     (\<forall>k. st' k = st k
          \<or> (metaFile (st' k) = None \<and> obsFile (st' k) = None
              \<and> now - key_last_activity st k > maxAge))"

text \<open>A session whose metadata was stored under a derived name with no activity in the
  last \<open>maxAge\<close> milliseconds.\<close>

definition from_stale :: "int \<Rightarrow> int \<Rightarrow> store \<Rightarrow> Session \<Rightarrow> bool" where
  "from_stale now maxAge st s =
     (\<exists>k m. stored_metadata st k = Some m \<and> sId s = mId m
           \<and> now - key_last_activity st k > maxAge)"

text \<open>A sweep that lists the metadata file of \<open>s1\<close>; the wait of \<open>clearSessionFile\<close> finds
  no counter file at its first poll.\<close>

definition demo_clear_env :: clear_env where
  "demo_clear_env = \<lparr>waitStart = 0, waitPolls = [\<lparr>pollTime = 0, pollFile = None\<rparr>],
                      lockAcquired = True\<rparr>"

definition demo_listing :: "(string \<times> clear_env) list option" where
  "demo_listing = Some [(safeSessionFilename ''s1'', demo_clear_env)]"

text \<open>An observation of type \<open>file_edit\<close> whose \<open>data\<close> is \<open>undefined\<close> or \<open>null\<close>: reading
  its \<open>path\<close> throws.\<close>

definition data_missing :: "json \<Rightarrow> bool" where
  "data_missing obs =
     (has_type ''file_edit'' obs
      \<and> (get_prop obs ''data'' = None \<or> get_prop obs ''data'' = Some JNull))"

text \<open>The session \<open>s1\<close>, completed, with a log whose only record is of type \<open>file_edit\<close>
  and has no \<open>data\<close>; and what \<open>JSON.parse\<close> does on that line.\<close>

definition demo_line3 :: string where
  \<open>demo_line3 = ''{"id":"o3","timestamp":"t3","type":"file_edit","tool":"Edit"}''\<close>

definition demo_obs3 :: json where
  "demo_obs3 = JObj [(''id'', JStr ''o3''), (''timestamp'', JStr ''t3''),
                     (''type'', JStr ''file_edit''), (''tool'', JStr ''Edit'')]"

definition demo_parse3 :: "string \<Rightarrow> json option" where
  "demo_parse3 s = (if s = demo_line3 then Some demo_obs3 else None)"

definition demo_nodata_store :: store where
  "demo_nodata_store =
     (demo_store Completed)(safeSessionFilename ''s1'' :=
        (demo_store Completed (safeSessionFilename ''s1''))
          \<lparr>obsFile := Some \<lparr>mtimeMs = 300000,
                             contents = Contents (join_lines [demo_line3, []])\<rparr>\<rparr>)"

text \<open>The session \<open>s1\<close>, completed, with the log of two records and a record cut short,
  and what \<open>readSession\<close> returns for it.\<close>

definition demo_ended_store :: store where
  "demo_ended_store =
     (demo_store Completed)(safeSessionFilename ''s1'' :=
        (demo_store Completed (safeSessionFilename ''s1''))
          \<lparr>obsFile := Some \<lparr>mtimeMs = 300000,
                             contents = Contents (join_lines [demo_line1, demo_bad_line, demo_line2, []])\<rparr>\<rparr>)"

definition demo_ended_session :: Session where
  "demo_ended_session =
     \<lparr>sId = ''s1'', sProject = ''demo'', sProjectPath = ''/work/demo'',
      sStartTime = 1000, sEndTime = Some 200000, sDurationMinutes = Some 3,
      sStatus = Completed, sObservations = [demo_obs1, demo_obs2], sSummary = None,
      filesModified = [JStr ''/a.ts''], commandsRun = 1, errorsEncountered = 1\<rparr>"

text \<open>The first 64 bits of the SHA-256 digest of a session identifier.\<close>

definition digest64 :: "string \<Rightarrow> u32 \<times> u32" where
  "digest64 s = (case sha256 (utf8 s) of (a, b, rest) \<Rightarrow> (a, b))"

section \<open>Derived file names\<close>

lemma hex_digit_name_char: "is_name_char (hex_digit n)"
proof -
  have "(''0123456789abcdef'') ! (n mod 16) \<in> set ''0123456789abcdef''"
    by (rule nth_mem) simp
  moreover have "\<forall>c \<in> set ''0123456789abcdef''. is_name_char c"
    by (simp add: is_name_char_def code_unit_def)
  ultimately show ?thesis
    unfolding hex_digit_def by blast
qed

lemma hex_word_chars: "c \<in> set (hex_word w) \<Longrightarrow> is_name_char c"
  by (auto simp: hex_word_def hex_digit_name_char)

lemma length_hex_word: "length (hex_word w) = 8"
  by (simp add: hex_word_def)

lemma hex_digest_chars: "c \<in> set (hex_digest x) \<Longrightarrow> is_name_char c"
  by (cases x rule: hex_digest.cases) (auto dest: hex_word_chars)

lemma length_hex_digest: "length (hex_digest x) = 64"
  by (cases x rule: hex_digest.cases) (simp add: length_hex_word)

lemma length_id_hash: "length (id_hash s) = 16"
  by (simp add: id_hash_def sha256_hex_def length_hex_digest)

lemma id_hash_chars: "c \<in> set (id_hash s) \<Longrightarrow> is_name_char c"
  unfolding id_hash_def sha256_hex_def by (auto dest: in_set_takeD hex_digest_chars)

lemma to_lower_name_char: "is_alnum c \<Longrightarrow> is_name_char (to_lower c)"
  unfolding is_alnum_def is_name_char_def to_lower_def code_unit_def Let_def
  by (auto simp: of_char_of)

lemma id_prefix_chars: "c \<in> set (id_prefix s) \<Longrightarrow> is_name_char c"
proof -
  have "is_name_char c" if "c \<in> set ''session''"
    using that by (auto simp: is_name_char_def code_unit_def)
  moreover have "is_name_char c" if "c \<in> set (map to_lower (filter is_alnum (take 8 s)))"
    using that by (auto simp: to_lower_name_char)
  ultimately show "c \<in> set (id_prefix s) \<Longrightarrow> is_name_char c"
    unfolding id_prefix_def Let_def by (auto split: if_splits)
qed

lemma length_id_prefix: "length (id_prefix s) \<le> 8"
  unfolding id_prefix_def Let_def
  by (auto intro: le_trans[OF length_filter_le])

lemma safeSessionFilename_chars:
  "c \<in> set (safeSessionFilename s) \<Longrightarrow> is_name_char c \<or> c = CHR ''_''"
  unfolding safeSessionFilename_def by (auto dest: id_prefix_chars id_hash_chars)

lemma underscore_not_name_char: "\<not> is_name_char (CHR ''_'')"
  by (simp add: is_name_char_def code_unit_def)

lemma safeSessionFilename_eq_iff:
  "safeSessionFilename a = safeSessionFilename b \<longleftrightarrow>
     id_prefix a = id_prefix b \<and> id_hash a = id_hash b"
proof
  assume eq: "safeSessionFilename a = safeSessionFilename b"
  have "length (id_prefix a) + 17 = length (safeSessionFilename a)"
    by (simp add: safeSessionFilename_def length_id_hash)
  also have "\<dots> = length (id_prefix b) + 17"
    unfolding eq by (simp add: safeSessionFilename_def length_id_hash)
  finally have "length (id_prefix a) = length (id_prefix b)" by simp
  with eq show "id_prefix a = id_prefix b \<and> id_hash a = id_hash b"
    unfolding safeSessionFilename_def by simp
qed (simp add: safeSessionFilename_def)

lemma hex_digit_inj: "m < 16 \<Longrightarrow> n < 16 \<Longrightarrow> hex_digit m = hex_digit n \<Longrightarrow> m = n"
proof -
  assume m: "m < 16" and n: "n < 16" and e: "hex_digit m = hex_digit n"
  have d: "distinct ''0123456789abcdef''" by simp
  have "(''0123456789abcdef'') ! m = (''0123456789abcdef'') ! n"
    using e m n by (simp add: hex_digit_def)
  with d m n show "m = n"
    by (simp add: nth_eq_iff_index_eq)
qed

lemma nibble_less: "unat ((w :: u32) AND 0xF) < 16"
proof -
  have "w AND 0xF \<le> 0xF" by (rule word_and_le1)
  then have "unat (w AND 0xF) \<le> unat (0xF :: u32)" by (simp add: word_le_nat_alt)
  then show ?thesis by simp
qed

lemma nibbles_eq:
  fixes w w' :: u32
  assumes "\<And>k. k < 8 \<Longrightarrow> drop_bit (4 * k) w AND 0xF = drop_bit (4 * k) w' AND 0xF"
  shows "w = w'"
proof (rule bit_word_eqI)
  fix n assume n: "n < LENGTH(32)"
  let ?k = "n div 4" and ?r = "n mod 4"
  have k: "?k < 8" using n by simp
  have r: "bit (0xF :: u32) ?r"
  proof -
    have m: "bit (mask 4 :: u32) ?r" by (simp add: bit_mask_iff)
    have e: "(mask 4 :: u32) = 0xF" by (simp add: mask_eq_exp_minus_1)
    from m show ?thesis unfolding e .
  qed
  have "bit (drop_bit (4 * ?k) w AND 0xF) ?r = bit (drop_bit (4 * ?k) w' AND 0xF) ?r"
    using assms[OF k] by simp
  then have "bit w (4 * ?k + ?r) = bit w' (4 * ?k + ?r)"
    using r by (simp add: bit_and_iff bit_drop_bit_eq)
  then show "bit w n = bit w' n" by simp
qed

lemma hex_word_inj: "hex_word w = hex_word w' \<Longrightarrow> w = w'"
proof (rule nibbles_eq)
  fix k :: nat assume k: "k < 8"
  assume e: "hex_word w = hex_word w'"
  let ?i = "7 - k"
  have i: "?i < 8" "28 - 4 * ?i = 4 * k" using k by auto
  from e have "hex_word w ! ?i = hex_word w' ! ?i" by simp
  then have "hex_digit (unat (drop_bit (28 - 4 * ?i) w AND 0xF))
             = hex_digit (unat (drop_bit (28 - 4 * ?i) w' AND 0xF))"
    using i(1) by (simp add: hex_word_def)
  then have "unat (drop_bit (4 * k) w AND 0xF) = unat (drop_bit (4 * k) w' AND 0xF)"
    unfolding i(2) by (intro hex_digit_inj nibble_less)
  then show "drop_bit (4 * k) w AND 0xF = drop_bit (4 * k) w' AND 0xF"
    by (simp add: word_unat_eq_iff)
qed

lemma id_hash_digest64: "id_hash a = id_hash b \<longleftrightarrow> digest64 a = digest64 b"
proof -
  obtain a0 a1 a2 a3 a4 a5 a6 a7 where A: "sha256 (utf8 a) = (a0, a1, a2, a3, a4, a5, a6, a7)"
    by (cases "sha256 (utf8 a)" rule: hex_digest.cases)
  obtain b0 b1 b2 b3 b4 b5 b6 b7 where B: "sha256 (utf8 b) = (b0, b1, b2, b3, b4, b5, b6, b7)"
    by (cases "sha256 (utf8 b)" rule: hex_digest.cases)
  have ha: "id_hash a = hex_word a0 @ hex_word a1"
    by (simp add: id_hash_def sha256_hex_def A length_hex_word)
  have hb: "id_hash b = hex_word b0 @ hex_word b1"
    by (simp add: id_hash_def sha256_hex_def B length_hex_word)
  have "hex_word a0 @ hex_word a1 = hex_word b0 @ hex_word b1 \<longleftrightarrow> a0 = b0 \<and> a1 = b1"
    using hex_word_inj by (auto simp: length_hex_word)
  then show ?thesis
    by (simp add: ha hb digest64_def A B)
qed

text \<open>The derived names of the two identifiers of the repository's test ``session ID uses
  hash to prevent collisions'', and of two identifiers made of the characters \<open>.\<close>, \<open>/\<close>,
  \<open>:\<close> and \<open>*\<close> only.\<close>

lemma safeSessionFilename_test_id_slash:
  "safeSessionFilename ''a/b'' = ''ab_c14cddc033f64b9d''"
  by code_simp

lemma safeSessionFilename_test_id_underscore:
  "safeSessionFilename ''a_b'' = ''ab_648fa9b31bc7ff7e''"
  by code_simp

lemma safeSessionFilename_unsafe_id_1:
  "safeSessionFilename ''./:/:*///.:**/*.*..:..*.:***:/:*'' = ''session_f6bf0e84a66c9324''"
  by code_simp

lemma safeSessionFilename_unsafe_id_2:
  "safeSessionFilename '':/*:::./::./:./.*./*./*/.*....:.'' = ''session_f6bf0e84a66c9324''"
  by code_simp

text \<open>
  Claim C6, first half, as it is stated: two session identifiers that differ only by
  characters that are unsafe in a file name (the characters that the regular expression of
  \<open>safeSessionFilename\<close> removes) never get the same derived name. It fails for the two
  identifiers below: they are different, neither has a letter or a digit, and both get the
  name \<open>session_f6bf0e84a66c9324\<close>, their SHA-256 digests having the same first 16
  hexadecimal digits.
\<close>

theorem safeSessionFilename_collision:
  "''./:/:*///.:**/*.*..:..*.:***:/:*'' \<noteq> '':/*:::./::./:./.*./*./*/.*....:.''
   \<and> filter is_alnum ''./:/:*///.:**/*.*..:..*.:***:/:*'' = []
   \<and> filter is_alnum '':/*:::./::./:./.*./*./*/.*....:.'' = []
   \<and> safeSessionFilename ''./:/:*///.:**/*.*..:..*.:***:/:*''
       = safeSessionFilename '':/*:::./::./:./.*./*./*/.*....:.''"
proof -
  have "''./:/:*///.:**/*.*..:..*.:***:/:*'' \<noteq> '':/*:::./::./:./.*./*./*/.*....:.''"
    by simp
  moreover have "filter is_alnum ''./:/:*///.:**/*.*..:..*.:***:/:*'' = []"
    by (simp add: is_alnum_def code_unit_def)
  moreover have "filter is_alnum '':/*:::./::./:./.*./*./*/.*....:.'' = []"
    by (simp add: is_alnum_def code_unit_def)
  ultimately show ?thesis
    by (simp only: safeSessionFilename_unsafe_id_1 safeSessionFilename_unsafe_id_2 simp_thms)
qed

text \<open>
  Claim C6, amended: two session identifiers get the same derived name exactly when their
  prefixes (the first eight characters, without the unsafe ones, in lower case) and the
  first 64 bits of their SHA-256 digests are both the same; so two identifiers that differ
  only by characters that are unsafe in a file name get different derived names whenever
  the first 64 bits of their digests differ. The derived name of every session identifier
  has no path separator (\<open>/\<close> or the backslash) and no dot, so no segment \<open>..\<close>.
\<close>

theorem safeSessionFilename_distinct_and_traversal_safe:
  "(safeSessionFilename a = safeSessionFilename b \<longleftrightarrow>
      id_prefix a = id_prefix b \<and> digest64 a = digest64 b)
   \<and> (a \<noteq> b \<and> filter is_alnum a = filter is_alnum b \<and> digest64 a \<noteq> digest64 b \<longrightarrow>
        safeSessionFilename a \<noteq> safeSessionFilename b)
   \<and> CHR ''/'' \<notin> set (safeSessionFilename a)
   \<and> CHR 0x5C \<notin> set (safeSessionFilename a)
   \<and> CHR ''.'' \<notin> set (safeSessionFilename a)
   \<and> \<not> (\<exists>u v. safeSessionFilename a = u @ ''..'' @ v)"
proof -
  have eq: "safeSessionFilename a = safeSessionFilename b \<longleftrightarrow>
              id_prefix a = id_prefix b \<and> digest64 a = digest64 b"
    by (simp add: safeSessionFilename_eq_iff id_hash_digest64)
  have no: "c \<notin> set (safeSessionFilename a)" if "\<not> is_name_char c" "c \<noteq> CHR ''_''" for c
    using that safeSessionFilename_chars by blast
  have slash: "CHR ''/'' \<notin> set (safeSessionFilename a)"
    by (rule no) (simp_all add: is_name_char_def code_unit_def)
  have backslash: "CHR 0x5C \<notin> set (safeSessionFilename a)"
    by (rule no) (simp_all add: is_name_char_def code_unit_def)
  have dot: "CHR ''.'' \<notin> set (safeSessionFilename a)"
    by (rule no) (simp_all add: is_name_char_def code_unit_def)
  have "\<not> (\<exists>u v. safeSessionFilename a = u @ ''..'' @ v)"
  proof
    assume "\<exists>u v. safeSessionFilename a = u @ ''..'' @ v"
    then obtain u v where "safeSessionFilename a = u @ ''..'' @ v" by blast
    then have "CHR ''.'' \<in> set (safeSessionFilename a)" by simp
    with dot show False by contradiction
  qed
  with slash backslash dot eq show ?thesis by blast
qed

theorem safeSessionFilename_distinct_and_traversal_safe_witness:
  "''a/b'' \<noteq> ''a_b''
   \<and> filter is_alnum ''a/b'' = filter is_alnum ''a_b''
   \<and> digest64 ''a/b'' \<noteq> digest64 ''a_b''
   \<and> safeSessionFilename ''a/b'' = ''ab_c14cddc033f64b9d''
   \<and> safeSessionFilename ''a_b'' = ''ab_648fa9b31bc7ff7e''
   \<and> safeSessionFilename ''a/b'' \<noteq> safeSessionFilename ''a_b''
   \<and> CHR ''/'' \<notin> set (safeSessionFilename ''a/b'')
   \<and> CHR ''.'' \<notin> set (safeSessionFilename ''a/b'')"
proof -
  note t = safeSessionFilename_distinct_and_traversal_safe [of "''a/b''" "''a_b''"]
  have names: "safeSessionFilename ''a/b'' \<noteq> safeSessionFilename ''a_b''"
    by (simp add: safeSessionFilename_test_id_slash safeSessionFilename_test_id_underscore)
  have pre: "id_prefix ''a/b'' = id_prefix ''a_b''"
    by (simp add: id_prefix_def is_alnum_def code_unit_def)
  have d: "digest64 ''a/b'' \<noteq> digest64 ''a_b''"
    using t names pre by blast
  have f: "filter is_alnum ''a/b'' = filter is_alnum ''a_b''"
    by (simp add: is_alnum_def code_unit_def)
  have n: "''a/b'' \<noteq> ''a_b''" by simp
  from t names d f n
       safeSessionFilename_test_id_slash safeSessionFilename_test_id_underscore
  show ?thesis by blast
qed

section \<open>The counter of pending jobs\<close>

lemma digit_char_is_digit: "d < 10 \<Longrightarrow> is_digit (digit_char d)"
  by (simp add: is_digit_def digit_char_def code_unit_def of_char_of)

lemma digit_char_value: "d < 10 \<Longrightarrow> int (code_unit (digit_char d)) - 48 = int d"
  by (simp add: digit_char_def code_unit_def of_char_of)

lemma digits_of_nat_digits: "c \<in> set (digits_of_nat n) \<Longrightarrow> is_digit c"
proof (induction n arbitrary: c rule: digits_of_nat.induct)
  case (1 n)
  show ?case
  proof (cases "n < 10")
    case True
    with "1.prems" show ?thesis
      by (subst (asm) digits_of_nat.simps) (simp add: digit_char_is_digit)
  next
    case False
    with "1.prems" have "c \<in> set (digits_of_nat (n div 10)) \<or> c = digit_char (n mod 10)"
      by (subst (asm) digits_of_nat.simps) auto
    then show ?thesis
      using "1.IH"[OF False] by (auto simp: digit_char_is_digit)
  qed
qed

lemma digits_of_nat_nonempty: "digits_of_nat n \<noteq> []"
  by (subst digits_of_nat.simps) simp

lemma digits_value_snoc: "digits_value (z @ [c]) = 10 * digits_value z + (int (code_unit c) - 48)"
  by (simp add: digits_value_def)

lemma digits_value_digits_of_nat: "digits_value (digits_of_nat n) = int n"
proof (induction n rule: digits_of_nat.induct)
  case (1 n)
  show ?case
  proof (cases "n < 10")
    case True
    then show ?thesis
      by (subst digits_of_nat.simps) (simp add: digits_value_def digit_char_value)
  next
    case False
    have "digits_value (digits_of_nat n)
            = 10 * digits_value (digits_of_nat (n div 10)) + int (n mod 10)"
      using False
      by (subst digits_of_nat.simps) (simp add: digits_value_snoc digit_char_value)
    also have "\<dots> = 10 * int (n div 10) + int (n mod 10)"
      using "1.IH"[OF False] by simp
    also have "\<dots> = int n"
      by (simp add: zdiv_int zmod_int)
    finally show ?thesis .
  qed
qed

lemma digit_not_space: "is_digit c \<Longrightarrow> \<not> is_space c"
  by (auto simp: is_digit_def is_space_def Let_def)

lemma digit_not_sign: "is_digit c \<Longrightarrow> c \<noteq> CHR ''-'' \<and> c \<noteq> CHR ''+''"
  by (auto simp: is_digit_def code_unit_def)

lemma dropWhile_none: "(\<And>c. c \<in> set xs \<Longrightarrow> \<not> P c) \<Longrightarrow> dropWhile P xs = xs"
  by (cases xs) auto

lemma trim_no_space: "(\<And>c. c \<in> set s \<Longrightarrow> \<not> is_space c) \<Longrightarrow> trim s = s"
proof -
  assume a: "\<And>c. c \<in> set s \<Longrightarrow> \<not> is_space c"
  have "dropWhile is_space s = s" using a by (rule dropWhile_none)
  moreover have "dropWhile is_space (rev s) = rev s"
    using a by (intro dropWhile_none) simp
  ultimately show ?thesis by (simp add: trim_def)
qed

lemma parseInt10_digits:
  assumes "z \<noteq> []" and "\<And>c. c \<in> set z \<Longrightarrow> is_digit c"
  shows "parseInt10 z = Some (digits_value z)"
proof -
  obtain c r where z: "z = c # r" using assms(1) by (cases z) auto
  have c: "is_digit c" using assms(2) z by simp
  have dw: "dropWhile is_space z = z"
    using assms(2) by (intro dropWhile_none) (auto dest: digit_not_space)
  have tw: "takeWhile is_digit z = z"
    using assms(2) by (simp add: takeWhile_eq_all_conv)
  have "parseInt10 z = (let (neg, s2) = (False, z); z' = takeWhile is_digit s2
          in if z' = [] then None else Some (if neg then - digits_value z' else digits_value z'))"
    unfolding parseInt10_def dw using z digit_not_sign[OF c] by (simp add: Let_def)
  then show ?thesis
    using assms(1) by (simp add: tw)
qed

lemma parseInt10_minus_digits:
  assumes "z \<noteq> []" and "\<And>c. c \<in> set z \<Longrightarrow> is_digit c"
  shows "parseInt10 (CHR ''-'' # z) = Some (- digits_value z)"
proof -
  have sp: "\<not> is_space (CHR ''-'')" by (simp add: is_space_def code_unit_def)
  have tw: "takeWhile is_digit z = z"
    using assms(2) by (simp add: takeWhile_eq_all_conv)
  show ?thesis
    using assms(1) by (simp add: parseInt10_def Let_def sp tw)
qed

lemma number_to_string_no_space: "c \<in> set (number_to_string i) \<Longrightarrow> \<not> is_space c"
  by (auto simp: number_to_string_def is_space_def code_unit_def
           dest!: digits_of_nat_digits digit_not_space split: if_splits)

lemma parseInt10_number_to_string: "parseInt10 (trim (number_to_string i)) = Some i"
proof -
  have "parseInt10 (number_to_string i) = Some i"
  proof (cases "i < 0")
    case True
    then show ?thesis
      by (simp add: number_to_string_def parseInt10_minus_digits digits_of_nat_nonempty
                    digits_of_nat_digits digits_value_digits_of_nat)
  next
    case False
    then show ?thesis
      by (simp add: number_to_string_def parseInt10_digits digits_of_nat_nonempty
                    digits_of_nat_digits digits_value_digits_of_nat)
  qed
  then show ?thesis by (simp add: trim_no_space number_to_string_no_space)
qed

lemma getPendingJobCount_written:
  "getPendingJobCount (Some (Contents (number_to_string i))) conservative = i"
  by (simp add: getPendingJobCount_def parseInt10_number_to_string)


lemma started_absent:
  "pendingFile (st (safeSessionFilename sid)) = None \<Longrightarrow>
   markBackgroundJobStarted True st sid =
     st(safeSessionFilename sid := (st (safeSessionFilename sid))
          \<lparr>pendingFile := Some (Contents (number_to_string 1)), pendingLockFile := False\<rparr>)"
  by (simp add: markBackgroundJobStarted_def getPendingJobCount_def Let_def)

lemma started_counting:
  "markBackgroundJobStarted True
     (st(k := r\<lparr>pendingFile := Some (Contents (number_to_string n)), pendingLockFile := False\<rparr>)) sid =
   st(k := r\<lparr>pendingFile := Some (Contents (number_to_string (n + 1))), pendingLockFile := False\<rparr>)"
  if "k = safeSessionFilename sid"
  using that by (simp add: markBackgroundJobStarted_def getPendingJobCount_written Let_def)

lemma call_times_last: "call_times (Suc n) f st = f (call_times n f st)"
  by (induction n arbitrary: st) simp_all

lemma started_K:
  assumes "pendingFile (st (safeSessionFilename sid)) = None"
  shows "call_times (Suc K) (\<lambda>s. markBackgroundJobStarted True s sid) st =
     st(safeSessionFilename sid := (st (safeSessionFilename sid))
          \<lparr>pendingFile := Some (Contents (number_to_string (int (Suc K)))), pendingLockFile := False\<rparr>)"
proof (induction K)
  case 0
  show ?case using started_absent[of st sid] assms by simp
next
  case (Suc K)
  have "int (Suc K) + 1 = int (Suc (Suc K))" by simp
  then show ?case
    by (subst call_times_last) (simp only: Suc started_counting)
qed

lemma completed_last:
  "markBackgroundJobCompleted True
     (st(k := r\<lparr>pendingFile := Some (Contents (number_to_string 1)), pendingLockFile := False\<rparr>)) sid =
   st(k := r\<lparr>pendingFile := None, pendingLockFile := False\<rparr>)"
  if "k = safeSessionFilename sid"
  using that by (simp add: markBackgroundJobCompleted_def getPendingJobCount_written Let_def)

lemma completed_counting:
  "markBackgroundJobCompleted True
     (st(k := r\<lparr>pendingFile := Some (Contents (number_to_string (int (Suc (Suc n))))), pendingLockFile := False\<rparr>)) sid =
   st(k := r\<lparr>pendingFile := Some (Contents (number_to_string (int (Suc n)))), pendingLockFile := False\<rparr>)"
  if "k = safeSessionFilename sid"
  using that by (simp add: markBackgroundJobCompleted_def getPendingJobCount_written Let_def)

lemma completed_K:
  assumes "k = safeSessionFilename sid"
  shows "call_times (Suc K) (\<lambda>s. markBackgroundJobCompleted True s sid)
       (st(k := r\<lparr>pendingFile := Some (Contents (number_to_string (int (Suc K)))), pendingLockFile := False\<rparr>)) =
     st(k := r\<lparr>pendingFile := None, pendingLockFile := False\<rparr>)"
proof (induction K)
  case 0
  have "int (Suc 0) = 1" by simp
  then show ?case by (simp only: call_times.simps completed_last[OF assms])
next
  case (Suc K)
  show ?case
    by (subst call_times.simps(2)) (simp only: completed_counting[OF assms] Suc)
qed

lemma completed_absent:
  "pendingFile (st (safeSessionFilename sid)) = None \<Longrightarrow>
   markBackgroundJobCompleted True st sid =
     st(safeSessionFilename sid := (st (safeSessionFilename sid))\<lparr>pendingLockFile := False\<rparr>)"
  by (cases "st (safeSessionFilename sid)")
     (simp add: markBackgroundJobCompleted_def getPendingJobCount_def Let_def)

text \<open>
  Claim C2: from a state without a counter file, \<open>K\<close> calls of \<open>markBackgroundJobStarted\<close>
  and then \<open>K\<close> calls of \<open>markBackgroundJobCompleted\<close>, each of which acquires the lock,
  leave no counter file, for every \<open>K\<close>. One more call of \<open>markBackgroundJobCompleted\<close>
  leaves the counter file absent and changes nothing else: at most it removes the file of
  the lock it took over, which can only be there if \<open>K = 0\<close> and a lock was left behind
  at the start.
\<close>

theorem pending_counter_balanced:
  assumes "pendingFile (st (safeSessionFilename sid)) = None"
  shows "let k = safeSessionFilename sid;
             st1 = call_times K (\<lambda>s. markBackgroundJobCompleted True s sid)
                     (call_times K (\<lambda>s. markBackgroundJobStarted True s sid) st);
             st2 = markBackgroundJobCompleted True st1 sid
         in pendingFile (st1 k) = None
            \<and> st2 = st1(k := (st1 k)\<lparr>pendingLockFile := False\<rparr>)
            \<and> (0 < K \<or> \<not> pendingLockFile (st k) \<longrightarrow> st2 = st1)"
proof (cases K)
  case 0
  have "markBackgroundJobCompleted True st sid =
          st(safeSessionFilename sid := (st (safeSessionFilename sid))\<lparr>pendingLockFile := False\<rparr>)"
    using assms by (rule completed_absent)
  moreover have "\<not> pendingLockFile (st (safeSessionFilename sid)) \<Longrightarrow>
     st(safeSessionFilename sid := (st (safeSessionFilename sid))\<lparr>pendingLockFile := False\<rparr>) = st"
    by (cases "st (safeSessionFilename sid)") (auto simp: fun_eq_iff)
  ultimately show ?thesis
    using assms 0 by (simp add: Let_def)
next
  case (Suc n)
  let ?k = "safeSessionFilename sid"
  have st1: "call_times K (\<lambda>s. markBackgroundJobCompleted True s sid)
               (call_times K (\<lambda>s. markBackgroundJobStarted True s sid) st)
             = st(?k := (st ?k)\<lparr>pendingFile := None, pendingLockFile := False\<rparr>)"
    unfolding Suc started_K[of st sid, OF assms] by (rule completed_K) simp
  show ?thesis
    unfolding Let_def st1
    by (simp add: completed_absent)
qed

theorem pending_counter_balanced_witness:
  "pendingFile (empty_store (safeSessionFilename ''s1'')) = None
   \<and> (let k = safeSessionFilename ''s1'';
            st1 = call_times 2 (\<lambda>s. markBackgroundJobCompleted True s ''s1'')
                    (call_times 2 (\<lambda>s. markBackgroundJobStarted True s ''s1'') empty_store);
            st2 = markBackgroundJobCompleted True st1 ''s1''
        in pendingFile (st1 k) = None
           \<and> st2 = st1(k := (st1 k)\<lparr>pendingLockFile := False\<rparr>)
           \<and> st2 = st1)"
proof -
  have h: "pendingFile (empty_store (safeSessionFilename ''s1'')) = None"
    by (simp add: empty_store_def no_files_def)
  have z: "0 < (2::nat) \<or> \<not> pendingLockFile (empty_store (safeSessionFilename ''s1''))"
    by simp
  from pending_counter_balanced [of empty_store "''s1''" 2, OF h, unfolded Let_def] z h
  show ?thesis unfolding Let_def by blast
qed

section \<open>The wait for pending jobs\<close>

lemma conservative_count_malformed:
  "unreadable_or_malformed pending \<Longrightarrow> getPendingJobCount pending True = 1"
  by (auto simp: unreadable_or_malformed_def getPendingJobCount_def
           split: option.splits contents.splits)

lemma conservative_count_clear:
  "getPendingJobCount pending True \<le> 0 \<longleftrightarrow> absent_or_not_positive pending"
  by (auto simp: absent_or_not_positive_def getPendingJobCount_def
           split: option.splits contents.splits)

lemma wait_exit_cases:
  "waitForPendingJobs startTime maxWaitMs polls = Some (e, n) \<Longrightarrow>
     n < length polls
     \<and> (\<forall>i<n. pollTime (polls ! i) - startTime < maxWaitMs
              \<and> \<not> absent_or_not_positive (pollFile (polls ! i)))
     \<and> (e = TimedOut \<longrightarrow> \<not> (pollTime (polls ! n) - startTime < maxWaitMs))
     \<and> (e = CounterClear \<longrightarrow> pollTime (polls ! n) - startTime < maxWaitMs
                               \<and> absent_or_not_positive (pollFile (polls ! n)))"
proof (induction polls arbitrary: n)
  case Nil
  then show ?case by simp
next
  case (Cons p ps)
  show ?case
  proof (cases "\<not> (pollTime p - startTime < maxWaitMs)")
    case True
    with Cons.prems show ?thesis by auto
  next
    case inTime: False
    show ?thesis
    proof (cases "getPendingJobCount (pollFile p) True \<le> 0")
      case True
      with inTime Cons.prems show ?thesis
        by (auto simp: conservative_count_clear)
    next
      case False
      with inTime Cons.prems obtain m
        where m: "waitForPendingJobs startTime maxWaitMs ps = Some (e, m)" "n = Suc m"
        by auto
      have here: "\<not> absent_or_not_positive (pollFile p)"
        using False by (simp add: conservative_count_clear)
      from Cons.IH[OF m(1)] inTime here m(2) show ?thesis
        by (auto simp: less_Suc_eq_0_disj)
    qed
  qed
qed

text \<open>
  Claim C3: in conservative mode a counter file that exists but cannot be read, or whose
  text \<open>parseInt\<close> does not turn into a number, counts as one pending job; at such a poll
  the loop of \<open>getPreCompactKnowledge\<close> and \<open>clearSessionFile\<close> goes on to the next one;
  and the loop ends only at a poll where \<open>maxWaitMs\<close> has elapsed, or where the counter
  file is absent or holds a number that is zero or less, every poll before it having
  found neither.
\<close>

theorem conservative_wait:
  "(unreadable_or_malformed pending \<longrightarrow> getPendingJobCount pending True = 1)
   \<and> (pollTime p - startTime < maxWaitMs \<and> unreadable_or_malformed (pollFile p) \<longrightarrow>
        waitForPendingJobs startTime maxWaitMs (p # ps)
          = map_option (\<lambda>(e, n). (e, Suc n)) (waitForPendingJobs startTime maxWaitMs ps))
   \<and> (waitForPendingJobs startTime maxWaitMs polls = Some (e, n) \<longrightarrow>
        n < length polls
        \<and> (\<forall>i<n. pollTime (polls ! i) - startTime < maxWaitMs
                 \<and> \<not> absent_or_not_positive (pollFile (polls ! i)))
        \<and> (e = TimedOut \<longrightarrow> \<not> (pollTime (polls ! n) - startTime < maxWaitMs))
        \<and> (e = CounterClear \<longrightarrow> pollTime (polls ! n) - startTime < maxWaitMs
                                  \<and> absent_or_not_positive (pollFile (polls ! n))))"
proof (intro conjI impI)
  show "unreadable_or_malformed pending \<Longrightarrow> getPendingJobCount pending True = 1"
    by (rule conservative_count_malformed)
next
  assume "pollTime p - startTime < maxWaitMs \<and> unreadable_or_malformed (pollFile p)"
  then show "waitForPendingJobs startTime maxWaitMs (p # ps)
          = map_option (\<lambda>(e, n). (e, Suc n)) (waitForPendingJobs startTime maxWaitMs ps)"
    by (simp add: conservative_count_malformed)
qed (use wait_exit_cases in blast)+

theorem conservative_wait_witness:
  "unreadable_or_malformed (Some Unreadable)
   \<and> getPendingJobCount (Some Unreadable) True = 1
   \<and> pollTime (hd demo_polls) - 1000 < 5000
   \<and> unreadable_or_malformed (pollFile (hd demo_polls))
   \<and> waitForPendingJobs 1000 5000 (hd demo_polls # tl demo_polls)
        = map_option (\<lambda>(e, n). (e, Suc n)) (waitForPendingJobs 1000 5000 (tl demo_polls))
   \<and> waitForPendingJobs 1000 5000 demo_polls = Some (CounterClear, 3)
   \<and> 3 < length demo_polls
   \<and> pollTime (demo_polls ! 0) - 1000 < 5000
   \<and> \<not> absent_or_not_positive (pollFile (demo_polls ! 0))
   \<and> pollTime (demo_polls ! 1) - 1000 < 5000
   \<and> \<not> absent_or_not_positive (pollFile (demo_polls ! 1))
   \<and> pollTime (demo_polls ! 2) - 1000 < 5000
   \<and> \<not> absent_or_not_positive (pollFile (demo_polls ! 2))
   \<and> pollTime (demo_polls ! 3) - 1000 < 5000
   \<and> absent_or_not_positive (pollFile (demo_polls ! 3))"
proof -
  have w: "waitForPendingJobs 1000 5000 demo_polls = Some (CounterClear, 3)"
    by (simp add: demo_polls_def getPendingJobCount_def parseInt10_def trim_def is_space_def
                  is_digit_def code_unit_def)
  have u: "unreadable_or_malformed (Some Unreadable)"
    by (simp add: unreadable_or_malformed_def)
  have h: "pollTime (hd demo_polls) - 1000 < 5000 \<and> unreadable_or_malformed (pollFile (hd demo_polls))"
    by (simp add: demo_polls_def unreadable_or_malformed_def)
  from conservative_wait [of "Some Unreadable" "hd demo_polls" 1000 5000 "tl demo_polls"
                             demo_polls CounterClear 3] w u h
  show ?thesis by simp
qed

section \<open>The life cycle of a session\<close>

lemma readSessionMetadata_None_iff:
  "readSessionMetadata st sid = None \<longleftrightarrow>
     (case metaFile (st (safeSessionFilename sid)) of
        None \<Rightarrow> True
      | Some f \<Rightarrow> contents f = Unreadable \<or> contents f = Contents NotJson)"
  by (auto simp: readSessionMetadata_def split: option.splits contents.splits meta_text.splits)

text \<open>
  Claim C9: \<open>addObservation\<close> returns \<open>false\<close> and leaves every file as it is, the log
  included, when the metadata file of the session is absent, cannot be read or parsed, or
  holds a status other than \<open>active\<close>.
\<close>

theorem addObservation_refuses_inactive:
  assumes "metaFile (st (safeSessionFilename sid)) = None
           \<or> (\<exists>f. metaFile (st (safeSessionFilename sid)) = Some f
                 \<and> (contents f = Unreadable \<or> contents f = Contents NotJson
                      \<or> (\<exists>m. contents f = Contents (MetaJson m) \<and> mStatus m \<noteq> Active)))"
  shows "addObservation stringify gotLock writeOk now st sid obs = (False, st)"
  using assms
  by (auto simp: addObservation_def readSessionMetadata_def
           split: option.splits contents.splits meta_text.splits)

theorem addObservation_refuses_inactive_witness:
  "(\<exists>f. metaFile (demo_store Completed (safeSessionFilename ''s1'')) = Some f
        \<and> (\<exists>m. contents f = Contents (MetaJson m) \<and> mStatus m \<noteq> Active))
   \<and> addObservation (\<lambda>_. ''{}'') True True 300000 (demo_store Completed) ''s1'' (JObj [])
       = (False, demo_store Completed)"
proof -
  have h: "\<exists>f. metaFile (demo_store Completed (safeSessionFilename ''s1'')) = Some f
        \<and> (\<exists>m. contents f = Contents (MetaJson m) \<and> mStatus m \<noteq> Active)"
    by (simp add: demo_store_def demo_metadata_def)
  then have "metaFile (demo_store Completed (safeSessionFilename ''s1'')) = None
           \<or> (\<exists>f. metaFile (demo_store Completed (safeSessionFilename ''s1'')) = Some f
                 \<and> (contents f = Unreadable \<or> contents f = Contents NotJson
                      \<or> (\<exists>m. contents f = Contents (MetaJson m) \<and> mStatus m \<noteq> Active)))"
    by blast
  from addObservation_refuses_inactive
         [of "demo_store Completed" "''s1''" "\<lambda>_. ''{}''" True True 300000 "JObj []", OF this] h
  show ?thesis by blast
qed

lemma write_keeps_identity:
  assumes "readSessionMetadata st sid = Some m"
      and "identity_fields m' = identity_fields m"
  shows "stored_identity (writeSessionMetadata t st m') sid = Some (identity_fields m)"
  using assms
  by (auto simp: stored_identity_def readSessionMetadata_def writeSessionMetadata_def
                 identity_fields_def Let_def
           split: option.splits contents.splits meta_text.splits)

text \<open>
  Claim C8: \<open>endSession\<close>, \<open>updateSessionSummary\<close> and \<open>updatePreCompactKnowledge\<close> leave
  the stored \<open>id\<close>, \<open>project\<close> and \<open>projectPath\<close> of the session they are called for as
  they were.
\<close>

theorem identity_fields_immutable:
  "stored_identity (snd (endSession parse now tWrite st sid endType)) sid = stored_identity st sid
   \<and> stored_identity (snd (updateSessionSummary tWrite st sid summary)) sid = stored_identity st sid
   \<and> stored_identity (snd (updatePreCompactKnowledge tWrite st sid paths)) sid
       = stored_identity st sid"
proof (cases "readSessionMetadata st sid")
  case None
  then show ?thesis
    by (simp add: endSession_def updateSessionSummary_def updatePreCompactKnowledge_def)
next
  case (Some m)
  have i: "stored_identity st sid = Some (identity_fields m)"
    by (simp add: stored_identity_def Some)
  have w: "stored_identity (writeSessionMetadata t st m') sid = Some (identity_fields m)"
    if "identity_fields m' = identity_fields m" for t m'
    using Some that by (rule write_keeps_identity)
  have e: "stored_identity (snd (endSession parse now tWrite st sid endType)) sid
             = Some (identity_fields m)"
    unfolding endSession_def Some Let_def
    by (simp add: i w identity_fields_def)
  have s: "stored_identity (snd (updateSessionSummary tWrite st sid summary)) sid
             = Some (identity_fields m)"
    unfolding updateSessionSummary_def Some
    by (simp add: w identity_fields_def)
  have k: "stored_identity (snd (updatePreCompactKnowledge tWrite st sid paths)) sid
             = Some (identity_fields m)"
    unfolding updatePreCompactKnowledge_def Some
    by (simp add: w identity_fields_def)
  from e s k show ?thesis by (simp add: i)
qed

section \<open>The status of a session\<close>

lemma read_is_stored: "readSessionMetadata st sid = stored_metadata st (safeSessionFilename sid)"
  by (simp add: readSessionMetadata_def stored_metadata_def
           split: option.splits contents.splits meta_text.splits)

lemma stored_after_write:
  "stored_metadata (writeSessionMetadata t st m) k =
     (if k = safeSessionFilename (mId m) then Some (m\<lparr>mLastUpdated := t\<rparr>)
      else stored_metadata st k)"
  by (simp add: stored_metadata_def writeSessionMetadata_def Let_def)

lemma filed_under_id_write:
  "filed_under_id st \<Longrightarrow> filed_under_id (writeSessionMetadata t st m)"
  by (auto simp: filed_under_id_def stored_after_write split: if_splits)

lemma filed_under_id_empty: "filed_under_id empty_store"
  by (simp add: filed_under_id_def stored_metadata_def empty_store_def no_files_def)

lemma filed_under_id_startSession:
  "filed_under_id st \<Longrightarrow> filed_under_id (snd (startSession now tWrite st sid p pp))"
  by (simp add: startSession_def Let_def filed_under_id_write)

lemma filed_under_id_apply_op:
  "filed_under_id st \<Longrightarrow> filed_under_id (apply_op parse st operation)"
  by (cases operation)
     (auto simp: endSession_def updateSessionSummary_def updatePreCompactKnowledge_def Let_def
                 filed_under_id_write split: option.splits)

text \<open>The other functions of the store write no metadata.\<close>

lemma filed_under_id_appendObservation:
  "filed_under_id st \<Longrightarrow>
   filed_under_id (snd (appendObservation stringify gotLock writeOk now st sid obs))"
  by (auto simp: filed_under_id_def stored_metadata_def appendObservation_def Let_def)

lemma filed_under_id_addObservation:
  "filed_under_id st \<Longrightarrow>
   filed_under_id (snd (addObservation stringify gotLock writeOk now st sid obs))"
  by (auto simp: addObservation_def filed_under_id_appendObservation split: option.splits)

lemma filed_under_id_markBackgroundJob:
  "filed_under_id st \<Longrightarrow> filed_under_id (markBackgroundJobStarted gotLock st sid)"
  "filed_under_id st \<Longrightarrow> filed_under_id (markBackgroundJobCompleted gotLock st sid)"
  by (auto simp: filed_under_id_def stored_metadata_def markBackgroundJobStarted_def
                 markBackgroundJobCompleted_def Let_def)

lemma filed_under_id_clearSessionFile:
  "filed_under_id st \<Longrightarrow> clearSessionFile env maxWaitMs st sid = Some st' \<Longrightarrow>
   filed_under_id st'"
  by (auto simp: filed_under_id_def stored_metadata_def clearSessionFile_def Let_def
           split: option.splits if_splits)

lemma filed_under_id_demo: "filed_under_id (demo_store s)"
  by (auto simp: filed_under_id_def stored_metadata_def demo_store_def demo_metadata_def
                 empty_store_def no_files_def split: if_splits)

lemma stored_status_write:
  "stored_status (writeSessionMetadata t st m) k =
     (if k = safeSessionFilename (mId m) then Some (mStatus m) else stored_status st k)"
  by (simp add: stored_status_def stored_after_write)

lemma status_step:
  assumes "filed_under_id st"
  shows "stored_status (apply_op parse st operation) k = stored_status st k
         \<or> (stored_status st k = Some Active
             \<and> (stored_status (apply_op parse st operation) k = Some Completed
                  \<or> stored_status (apply_op parse st operation) k = Some Stopped))"
proof (cases "readSessionMetadata st (op_session operation)")
  case None
  then show ?thesis
    by (cases operation)
       (simp_all add: op_session_def endSession_def updateSessionSummary_def
                      updatePreCompactKnowledge_def)
next
  case (Some m)
  then have target: "safeSessionFilename (mId m) = safeSessionFilename (op_session operation)"
    using assms by (simp add: read_is_stored filed_under_id_def)
  have before: "stored_status st (safeSessionFilename (op_session operation)) = Some (mStatus m)"
    using Some by (simp add: stored_status_def read_is_stored)
  show ?thesis
  proof (cases operation)
    case (EndSession now tWrite sid endType)
    with Some target before show ?thesis
      by (auto simp: op_session_def endSession_def Let_def stored_status_write)
  next
    case (UpdateSessionSummary tWrite sid summary)
    with Some target before show ?thesis
      by (auto simp: op_session_def updateSessionSummary_def stored_status_write)
  next
    case (UpdatePreCompactKnowledge tWrite sid paths)
    with Some target before show ?thesis
      by (auto simp: op_session_def updatePreCompactKnowledge_def stored_status_write)
  qed
qed

lemma status_terminal_kept:
  assumes "filed_under_id st"
      and "stored_status st k = Some Completed \<or> stored_status st k = Some Stopped"
  shows "stored_status (foldl (apply_op parse) st ops) k = stored_status st k"
  using assms
proof (induction ops arbitrary: st)
  case Nil
  then show ?case by simp
next
  case (Cons operation ops)
  have same: "stored_status (apply_op parse st operation) k = stored_status st k"
    using status_step[OF Cons.prems(1), of parse operation k] Cons.prems(2) by auto
  have "stored_status (foldl (apply_op parse) (apply_op parse st operation) ops) k
          = stored_status (apply_op parse st operation) k"
    using Cons.prems(2) same
    by (intro Cons.IH filed_under_id_apply_op Cons.prems(1)) simp
  with same show ?case by simp
qed

text \<open>
  Claim C7: \<open>startSession\<close> creates the record with status \<open>active\<close>. In a store where
  every metadata file is the one named after the \<open>id\<close> it holds (the empty store is such a
  store, and \<open>startSession\<close> and the three operations keep it so), an operation
  (\<open>endSession\<close>, \<open>updateSessionSummary\<close>, \<open>updatePreCompactKnowledge\<close>) leaves the stored
  status of every session as it is or takes it from \<open>active\<close> to \<open>completed\<close> or \<open>stopped\<close>;
  and a stored status \<open>completed\<close> or \<open>stopped\<close> is the same after any sequence of these
  operations.
\<close>

theorem status_irreversible:
  "sStatus (fst (startSession now tWrite st0 sid project projectPath)) = Active
   \<and> stored_status (snd (startSession now tWrite st0 sid project projectPath))
        (safeSessionFilename sid) = Some Active
   \<and> (filed_under_id st \<longrightarrow>
        stored_status (apply_op parse st operation) k = stored_status st k
        \<or> (stored_status st k = Some Active
            \<and> (stored_status (apply_op parse st operation) k = Some Completed
                 \<or> stored_status (apply_op parse st operation) k = Some Stopped)))
   \<and> (filed_under_id st
        \<and> (stored_status st k = Some Completed \<or> stored_status st k = Some Stopped) \<longrightarrow>
        stored_status (foldl (apply_op parse) st ops) k = stored_status st k)"
proof (intro conjI impI)
  show "sStatus (fst (startSession now tWrite st0 sid project projectPath)) = Active"
    by (simp add: startSession_def Let_def)
  show "stored_status (snd (startSession now tWrite st0 sid project projectPath))
        (safeSessionFilename sid) = Some Active"
    by (simp add: startSession_def Let_def stored_status_write)
  show "stored_status (apply_op parse st operation) k = stored_status st k
        \<or> (stored_status st k = Some Active
            \<and> (stored_status (apply_op parse st operation) k = Some Completed
                 \<or> stored_status (apply_op parse st operation) k = Some Stopped))"
    if "filed_under_id st" using that by (rule status_step)
  show "stored_status (foldl (apply_op parse) st ops) k = stored_status st k"
    if "filed_under_id st
        \<and> (stored_status st k = Some Completed \<or> stored_status st k = Some Stopped)"
    using that status_terminal_kept by blast
qed

theorem status_irreversible_witness:
  "filed_under_id (demo_store Active)
   \<and> stored_status (demo_store Active) (safeSessionFilename ''s1'') = Some Active
   \<and> stored_status (apply_op (\<lambda>_. None) (demo_store Active) (EndSession 900000 900001 ''s1'' Stop))
        (safeSessionFilename ''s1'') = Some Stopped
   \<and> filed_under_id (demo_store Completed)
   \<and> stored_status (demo_store Completed) (safeSessionFilename ''s1'') = Some Completed
   \<and> stored_status (foldl (apply_op (\<lambda>_. None)) (demo_store Completed) demo_ops)
        (safeSessionFilename ''s1'') = Some Completed"
proof -
  have a: "stored_status (demo_store s) (safeSessionFilename ''s1'') = Some s" for s
    by (simp add: stored_status_def stored_metadata_def demo_store_def demo_metadata_def)
  have e: "stored_status (apply_op (\<lambda>_. None) (demo_store Active) (EndSession 900000 900001 ''s1'' Stop))
        (safeSessionFilename ''s1'') = Some Stopped"
    by (simp add: endSession_def read_is_stored stored_metadata_def demo_store_def
                  demo_metadata_def Let_def stored_status_write)
  from status_irreversible [of 0 0 empty_store "''s1''" "''p''" "''/p''" "demo_store Completed"
                               "\<lambda>_. None" "hd demo_ops" "safeSessionFilename ''s1''" demo_ops]
       filed_under_id_demo a e
  show ?thesis by simp
qed

section \<open>Reading the observation log\<close>

lemma split_lines_nonempty: "split_lines s \<noteq> []"
  by (induction s) (auto split: list.splits)

lemma split_lines_single: "CHR 0x0A \<notin> set l \<Longrightarrow> split_lines l = [l]"
  by (induction l) auto

lemma split_lines_first:
  "CHR 0x0A \<notin> set l \<Longrightarrow> split_lines (l @ CHR 0x0A # rest) = l # split_lines rest"
  by (induction l) auto

lemma split_join_lines:
  "lines \<noteq> [] \<Longrightarrow> (\<And>l. l \<in> set lines \<Longrightarrow> CHR 0x0A \<notin> set l) \<Longrightarrow>
   split_lines (join_lines lines) = lines"
proof (induction lines rule: join_lines.induct)
  case 1
  then show ?case by simp
next
  case (2 l)
  then show ?case by (simp add: split_lines_single)
next
  case (3 l l' ls)
  have "split_lines (join_lines (l # l' # ls)) = l # split_lines (join_lines (l' # ls))"
    using "3.prems"(2)[of l] by (simp add: split_lines_first)
  also have "split_lines (join_lines (l' # ls)) = l' # ls"
    using "3.prems"(2) by (intro "3.IH") auto
  finally show ?case .
qed

lemma parse_lines_append:
  "parse_lines parse (xs @ ys) = parse_lines parse xs @ parse_lines parse ys"
  by (induction xs) (auto split: option.splits)

lemma parse_line_Some_iff:
  "parse_line parse line = Some obs \<longleftrightarrow>
     trim line \<noteq> [] \<and> parse (trim line) = Some obs \<and> has_required_fields obs = Inr True"
  by (auto simp: parse_line_def Let_def split: option.splits sum.splits if_splits)

lemma lacking_not_accepted: "lacks_required_field obs \<Longrightarrow> has_required_fields obs \<noteq> Inr True"
  by (auto simp: lacks_required_field_def has_required_fields_def)

lemma bad_line_skipped:
  "parse (trim line) = None \<or> (\<exists>obs. parse (trim line) = Some obs \<and> lacks_required_field obs)
   \<Longrightarrow> parse_line parse line = None"
  by (auto simp: parse_line_def Let_def dest: lacking_not_accepted
           split: option.splits sum.splits)

text \<open>
  Claim C4: when the log is a sequence of lines, a line that \<open>JSON.parse\<close> rejects, or that
  parses to a value without one of the fields \<open>id\<close>, \<open>timestamp\<close>, \<open>type\<close>, \<open>tool\<close>, is
  skipped: \<open>readObservations\<close> returns what the lines before it give, followed by what
  the lines after it give. For a valid record, such a line, and one more valid record
  (with or without a line feed at the end of the file) it returns the two observations,
  in their order. \<open>readObservations\<close> has no exception among its results.
\<close>

theorem readObservations_skips_bad_lines:
  assumes "obsFile (st (safeSessionFilename sid)) = Some f"
      and "contents f = Contents (join_lines (before @ [bad] @ after))"
      and "\<forall>l \<in> set (before @ [bad] @ after). CHR 0x0A \<notin> set l"
      and "parse (trim bad) = None
           \<or> (\<exists>obs. parse (trim bad) = Some obs \<and> lacks_required_field obs)"
  shows "readObservations parse st sid = parse_lines parse before @ parse_lines parse after
         \<and> (\<forall>l1 l2 o1 o2.
               before = [l1] \<and> (after = [l2] \<or> after = [l2, []])
               \<and> parse_line parse l1 = Some o1 \<and> parse_line parse l2 = Some o2
               \<longrightarrow> readObservations parse st sid = [o1, o2])"
proof -
  have "split_lines (join_lines (before @ [bad] @ after)) = before @ [bad] @ after"
    using assms(3) by (intro split_join_lines) auto
  then have r: "readObservations parse st sid = parse_lines parse (before @ [bad] @ after)"
    using assms(1,2) by (simp add: readObservations_def)
  have "parse_line parse bad = None"
    using assms(4) by (rule bad_line_skipped)
  then have general:
    "readObservations parse st sid = parse_lines parse before @ parse_lines parse after"
    unfolding r by (simp add: parse_lines_append)
  have empty: "parse_line parse [] = None"
    by (simp add: parse_line_def trim_def)
  show ?thesis
    using general empty by auto
qed


lemma demo_trim: "trim demo_line1 = demo_line1" "trim demo_line2 = demo_line2"
  "trim demo_bad_line = demo_bad_line"
  by (simp_all add: demo_line1_def demo_line2_def demo_bad_line_def trim_def is_space_def code_unit_def)

lemma demo_lines_differ: "demo_line2 \<noteq> demo_line1" "demo_bad_line \<noteq> demo_line1"
  "demo_bad_line \<noteq> demo_line2" "demo_line1 \<noteq> []" "demo_line2 \<noteq> []"
  by (simp_all add: demo_line1_def demo_line2_def demo_bad_line_def)

lemma demo_parse_lines:
  "parse_line demo_parse demo_line1 = Some demo_obs1"
  "parse_line demo_parse demo_line2 = Some demo_obs2"
  by (simp_all add: parse_line_def demo_trim demo_lines_differ demo_parse_def
                    has_required_fields_def demo_obs1_def demo_obs2_def)

theorem readObservations_skips_bad_lines_witness:
  "obsFile (demo_log_store (safeSessionFilename ''s1''))
     = Some \<lparr>mtimeMs = 300000,
             contents = Contents (join_lines ([demo_line1] @ [demo_bad_line] @ [demo_line2, []]))\<rparr>
   \<and> CHR 0x0A \<notin> set demo_line1 \<and> CHR 0x0A \<notin> set demo_bad_line \<and> CHR 0x0A \<notin> set demo_line2
   \<and> demo_parse (trim demo_bad_line) = None
   \<and> parse_line demo_parse demo_line1 = Some demo_obs1
   \<and> parse_line demo_parse demo_line2 = Some demo_obs2
   \<and> readObservations demo_parse demo_log_store ''s1'' = [demo_obs1, demo_obs2]"
proof -
  have f: "obsFile (demo_log_store (safeSessionFilename ''s1''))
     = Some \<lparr>mtimeMs = 300000,
             contents = Contents (join_lines ([demo_line1] @ [demo_bad_line] @ [demo_line2, []]))\<rparr>"
    by (simp add: demo_log_store_def)
  have n: "CHR 0x0A \<notin> set demo_line1 \<and> CHR 0x0A \<notin> set demo_bad_line \<and> CHR 0x0A \<notin> set demo_line2"
    by (simp add: demo_line1_def demo_line2_def demo_bad_line_def)
  then have n': "\<forall>l \<in> set ([demo_line1] @ [demo_bad_line] @ [demo_line2, []]). CHR 0x0A \<notin> set l"
    by simp
  have b: "demo_parse (trim demo_bad_line) = None"
    by (simp add: demo_trim demo_parse_def demo_lines_differ)
  then have b': "demo_parse (trim demo_bad_line) = None
           \<or> (\<exists>obs. demo_parse (trim demo_bad_line) = Some obs \<and> lacks_required_field obs)"
    by simp
  have c: "contents \<lparr>mtimeMs = 300000,
             contents = Contents (join_lines ([demo_line1] @ [demo_bad_line] @ [demo_line2, []]))\<rparr>
           = Contents (join_lines ([demo_line1] @ [demo_bad_line] @ [demo_line2, []]))"
    by simp
  note t = readObservations_skips_bad_lines
         [of demo_log_store "''s1''" _ "[demo_line1]" demo_bad_line "[demo_line2, []]" demo_parse,
          OF f c n' b', THEN conjunct2]
  have "readObservations demo_parse demo_log_store ''s1'' = [demo_obs1, demo_obs2]"
    using t demo_parse_lines by blast
  with f n b demo_parse_lines show ?thesis by simp
qed

section \<open>The counters of a session\<close>

lemma set_add_set: "set (set_add xs v) = insert v (set xs)"
  by (auto simp: set_add_def)

lemma set_add_distinct:
  "distinct (filter is_primitive xs) \<Longrightarrow> distinct (filter is_primitive (set_add xs v))"
  by (auto simp: set_add_def)

lemma file_edit_not_command: "has_type ''file_edit'' obs \<Longrightarrow> \<not> has_type ''command'' obs"
  by (auto simp: has_type_def)

lemma count_observations_result:
  "count_observations obs (files, commands, errors) = Inr (files', commands', errors') \<Longrightarrow>
     commands' = commands + length (filter (has_type ''command'') obs)
     \<and> errors' = errors + length (filter counts_as_error obs)
     \<and> set files' = set files \<union> set (List.map_filter edited_path obs)
     \<and> (distinct (filter is_primitive files) \<longrightarrow> distinct (filter is_primitive files'))"
proof (induction obs arbitrary: files commands errors)
  case Nil
  then show ?case by simp
next
  case (Cons ob rest)
  let ?errors = "if counts_as_error ob then errors + 1 else errors"
  show ?case
  proof (cases "has_type ''file_edit'' ob")
    case edit: True
    then obtain d where d: "get_prop ob ''data'' = Some d" "d \<noteq> JNull"
      using Cons.prems
      by (auto simp: has_type_def Let_def split: option.splits json.splits)
    show ?thesis
    proof (cases "get_prop d ''path''")
      case None
      then have "count_observations rest (files, commands, ?errors) = Inr (files', commands', errors')"
        using Cons.prems edit d
        by (auto simp: has_type_def counts_as_error_def Let_def split: json.splits)
      from Cons.IH[OF this] edit d None show ?thesis
        by (auto simp: edited_path_def dest: file_edit_not_command)
    next
      case (Some p)
      let ?files = "if truthy p then set_add files p else files"
      have "count_observations rest (?files, commands, ?errors) = Inr (files', commands', errors')"
        using Cons.prems edit d Some
        by (auto simp: has_type_def counts_as_error_def Let_def split: json.splits)
      from Cons.IH[OF this] edit d Some show ?thesis
        by (auto simp: edited_path_def set_add_set set_add_distinct
                 dest: file_edit_not_command)
    qed
  next
    case noedit: False
    show ?thesis
    proof (cases "has_type ''command'' ob")
      case True
      then have "count_observations rest (files, commands + 1, ?errors) = Inr (files', commands', errors')"
        using Cons.prems noedit
        by (auto simp: has_type_def counts_as_error_def Let_def)
      from Cons.IH[OF this] noedit True show ?thesis
        by (auto simp: edited_path_def)
    next
      case False
      then have "count_observations rest (files, commands, ?errors) = Inr (files', commands', errors')"
        using Cons.prems noedit
        by (auto simp: has_type_def counts_as_error_def Let_def)
      from Cons.IH[OF this] noedit False show ?thesis
        by (auto simp: edited_path_def)
    qed
  qed
qed

lemma in_set_map_filter: "y \<in> set (List.map_filter f xs) \<longleftrightarrow> (\<exists>x \<in> set xs. f x = Some y)"
  by (induction xs) (auto split: option.splits)

lemma edited_path_string:
  "edited_path obs = Some (JStr p) \<longleftrightarrow>
     p \<noteq> [] \<and> has_type ''file_edit'' obs
     \<and> (\<exists>d. get_prop obs ''data'' = Some d \<and> get_prop d ''path'' = Some (JStr p))"
  by (auto simp: edited_path_def split: option.splits if_splits)

text \<open>
  Claim C10: in a session that \<open>readSession\<close> returns, the observations are those read from
  the log, and the counters are computed from them alone: \<open>commandsRun\<close> is the number of
  observations of type \<open>command\<close>; \<open>filesModified\<close> holds, each once, the \<open>path\<close> values of
  the observations of type \<open>file_edit\<close> that are truthy, so the strings in it are the
  non-empty paths; \<open>errorsEncountered\<close> is the number of observations whose type is
  \<open>error\<close> or whose \<open>isError\<close> is truthy.
\<close>

theorem readSession_counters:
  assumes "readSession parse st sid = Inr (Some s)"
  shows "sObservations s = readObservations parse st sid
         \<and> commandsRun s = length (filter (has_type ''command'') (readObservations parse st sid))
         \<and> set (filesModified s) = set (List.map_filter edited_path (readObservations parse st sid))
         \<and> distinct (filter is_primitive (filesModified s))
         \<and> (\<forall>p. JStr p \<in> set (filesModified s) \<longleftrightarrow>
               p \<noteq> [] \<and> (\<exists>obs \<in> set (readObservations parse st sid).
                              has_type ''file_edit'' obs
                              \<and> (\<exists>d. get_prop obs ''data'' = Some d
                                      \<and> get_prop d ''path'' = Some (JStr p))))
         \<and> errorsEncountered s = length (filter counts_as_error (readObservations parse st sid))"
proof -
  let ?obs = "readObservations parse st sid"
  from assms obtain m files commands errors where
    m: "readSessionMetadata st sid = Some m" and
    c: "count_observations ?obs ([], 0, 0) = Inr (files, commands, errors)" and
    s: "sObservations s = ?obs" "filesModified s = files" "commandsRun s = commands"
       "errorsEncountered s = errors"
    by (auto simp: readSession_def Let_def split: option.splits sum.splits prod.splits)
  note r = count_observations_result[OF c]
  have paths: "JStr p \<in> set (List.map_filter edited_path ?obs) \<longleftrightarrow>
               p \<noteq> [] \<and> (\<exists>obs \<in> set ?obs. has_type ''file_edit'' obs
                              \<and> (\<exists>d. get_prop obs ''data'' = Some d
                                      \<and> get_prop d ''path'' = Some (JStr p)))" for p
    unfolding in_set_map_filter edited_path_string by blast
  from r s paths show ?thesis by simp
qed


text \<open>\<open>readSession\<close> throws exactly when the metadata can be read and the log holds an
  observation of type \<open>file_edit\<close> without \<open>data\<close>.\<close>

lemma count_observations_throws_iff:
  "(\<exists>e. count_observations obs acc = Inl e) \<longleftrightarrow> (\<exists>ob \<in> set obs. data_missing ob)"
proof (induction obs arbitrary: acc)
  case Nil
  then show ?case by simp
next
  case (Cons ob rest)
  obtain files commands errors where acc: "acc = (files, commands, errors)"
    by (cases acc)
  show ?case
  proof (cases "data_missing ob")
    case True
    then show ?thesis
      unfolding acc by (auto simp: data_missing_def has_type_def Let_def)
  next
    case False
    then have "(\<exists>e. count_observations (ob # rest) acc = Inl e)
                \<longleftrightarrow> (\<exists>acc'. \<exists>e. count_observations rest acc' = Inl e)"
      unfolding acc
      by (auto simp: data_missing_def has_type_def Let_def Cons.IH
               split: option.splits json.splits)
    with False Cons.IH show ?thesis by auto
  qed
qed

lemma readSession_throws_iff:
  "(\<exists>e. readSession parse st sid = Inl e) \<longleftrightarrow>
     readSessionMetadata st sid \<noteq> None
     \<and> (\<exists>ob \<in> set (readObservations parse st sid). data_missing ob)"
  using count_observations_throws_iff[of "readObservations parse st sid" "([], 0, 0)"]
  by (auto simp: readSession_def Let_def split: option.splits sum.splits prod.splits)

lemma demo_log_read: "readObservations demo_parse demo_log_store ''s1'' = [demo_obs1, demo_obs2]"
proof -
  have "split_lines (join_lines [demo_line1, demo_bad_line, demo_line2, []])
          = [demo_line1, demo_bad_line, demo_line2, []]"
    by (rule split_join_lines) (auto simp: demo_line1_def demo_line2_def demo_bad_line_def)
  moreover have "parse_line demo_parse demo_bad_line = None"
    by (simp add: parse_line_def demo_trim demo_parse_def demo_lines_differ)
  moreover have "parse_line demo_parse [] = None"
    by (simp add: parse_line_def trim_def)
  ultimately show ?thesis
    by (simp add: readObservations_def demo_log_store_def demo_parse_lines)
qed

lemma demo_log_session: "readSession demo_parse demo_log_store ''s1'' = Inr (Some demo_session)"
proof -
  have m: "readSessionMetadata demo_log_store ''s1'' = Some (demo_metadata Active)"
    by (simp add: readSessionMetadata_def demo_log_store_def demo_store_def)
  have c: "count_observations [demo_obs1, demo_obs2] ([], 0, 0) = Inr ([JStr ''/a.ts''], 1, 1)"
    by (simp add: demo_obs1_def demo_obs2_def set_add_def)
  show ?thesis
    unfolding readSession_def m demo_log_read Let_def c
    by (simp add: demo_metadata_def demo_session_def)
qed

theorem readSession_counters_witness:
  "readSession demo_parse demo_log_store ''s1'' = Inr (Some demo_session)
   \<and> sObservations demo_session = readObservations demo_parse demo_log_store ''s1''
   \<and> commandsRun demo_session
        = length (filter (has_type ''command'') (readObservations demo_parse demo_log_store ''s1''))
   \<and> commandsRun demo_session = 1
   \<and> set (filesModified demo_session)
        = set (List.map_filter edited_path (readObservations demo_parse demo_log_store ''s1''))
   \<and> filesModified demo_session = [JStr ''/a.ts'']
   \<and> errorsEncountered demo_session
        = length (filter counts_as_error (readObservations demo_parse demo_log_store ''s1''))
   \<and> errorsEncountered demo_session = 1"
  using readSession_counters [OF demo_log_session] demo_log_session
  by (simp add: demo_session_def)

section \<open>Ending a session that has ended\<close>

lemma readSession_returns:
  assumes "readSessionMetadata st sid = Some m"
      and "\<forall>ob \<in> set (readObservations parse st sid). \<not> data_missing ob"
  shows "\<exists>s. readSession parse st sid = Inr (Some s)
             \<and> sId s = mId m \<and> sProject s = mProject m \<and> sProjectPath s = mProjectPath m
             \<and> sStartTime s = mStartTime m \<and> sStatus s = mStatus m
             \<and> sEndTime s = mEndTime m \<and> sDurationMinutes s = mDurationMinutes m
             \<and> sSummary s = mSummary m"
proof -
  have "\<not> (\<exists>e. count_observations (readObservations parse st sid) ([], 0, 0) = Inl e)"
    using assms(2) by (simp add: count_observations_throws_iff)
  then obtain r where "count_observations (readObservations parse st sid) ([], 0, 0) = Inr r"
    by (cases "count_observations (readObservations parse st sid) ([], 0, 0)") auto
  then show ?thesis
    using assms(1) by (cases r) (auto simp: readSession_def Let_def)
qed

text \<open>
  Claim C1, amended: for a session whose stored status is \<open>completed\<close> or \<open>stopped\<close>,
  \<open>endSession\<close> leaves the store as it is (the end time is not stamped again, the duration
  is not computed again) and its result is that of \<open>readSession\<close> on that store; when every
  observation of type \<open>file_edit\<close> in the log has its \<open>data\<close>, that result is the current
  record, with the stored identity, start, status, end time, duration and summary and the
  observations of the log.
\<close>

theorem endSession_terminal:
  assumes "readSessionMetadata st sid = Some m"
      and "mStatus m = Completed \<or> mStatus m = Stopped"
  shows "endSession parse now tWrite st sid endType = (readSession parse st sid, st)
         \<and> ((\<forall>ob \<in> set (readObservations parse st sid). \<not> data_missing ob) \<longrightarrow>
              (\<exists>s. endSession parse now tWrite st sid endType = (Inr (Some s), st)
                   \<and> sId s = mId m \<and> sProject s = mProject m
                   \<and> sProjectPath s = mProjectPath m \<and> sStartTime s = mStartTime m
                   \<and> sStatus s = mStatus m \<and> sEndTime s = mEndTime m
                   \<and> sDurationMinutes s = mDurationMinutes m \<and> sSummary s = mSummary m
                   \<and> sObservations s = readObservations parse st sid))"
proof -
  have e: "endSession parse now tWrite st sid endType = (readSession parse st sid, st)"
    using assms by (auto simp: endSession_def)
  have ok: "\<exists>s. endSession parse now tWrite st sid endType = (Inr (Some s), st)
                   \<and> sId s = mId m \<and> sProject s = mProject m
                   \<and> sProjectPath s = mProjectPath m \<and> sStartTime s = mStartTime m
                   \<and> sStatus s = mStatus m \<and> sEndTime s = mEndTime m
                   \<and> sDurationMinutes s = mDurationMinutes m \<and> sSummary s = mSummary m
                   \<and> sObservations s = readObservations parse st sid"
    if h: "\<forall>ob \<in> set (readObservations parse st sid). \<not> data_missing ob"
  proof -
    from readSession_returns[OF assms(1) h] obtain s where
      s: "readSession parse st sid = Inr (Some s)" "sId s = mId m" "sProject s = mProject m"
         "sProjectPath s = mProjectPath m" "sStartTime s = mStartTime m" "sStatus s = mStatus m"
         "sEndTime s = mEndTime m" "sDurationMinutes s = mDurationMinutes m"
         "sSummary s = mSummary m"
      by blast
    have "sObservations s = readObservations parse st sid"
      using s(1) by (auto simp: readSession_def Let_def split: option.splits sum.splits prod.splits)
    with s e show ?thesis by auto
  qed
  from e ok show ?thesis by blast
qed

lemma demo_line3_trim: "trim demo_line3 = demo_line3" "demo_line3 \<noteq> []"
  by (simp_all add: demo_line3_def trim_def is_space_def code_unit_def)

lemma demo_nodata_read: "readObservations demo_parse3 demo_nodata_store ''s1'' = [demo_obs3]"
proof -
  have "split_lines (join_lines [demo_line3, []]) = [demo_line3, []]"
    by (rule split_join_lines) (auto simp: demo_line3_def)
  moreover have "parse_line demo_parse3 demo_line3 = Some demo_obs3"
    by (simp add: parse_line_def demo_line3_trim demo_parse3_def has_required_fields_def
                  demo_obs3_def)
  moreover have "parse_line demo_parse3 [] = None"
    by (simp add: parse_line_def trim_def)
  ultimately show ?thesis
    by (simp add: readObservations_def demo_nodata_store_def)
qed

lemma demo_nodata_metadata:
  "readSessionMetadata demo_nodata_store ''s1'' = Some (demo_metadata Completed)"
  by (simp add: readSessionMetadata_def demo_nodata_store_def demo_store_def)

text \<open>
  Claim C1, as it is stated, says that \<open>endSession\<close> returns the current record for every
  session whose status is \<open>completed\<close> or \<open>stopped\<close>. It fails for a completed session whose
  log holds a record of type \<open>file_edit\<close> without \<open>data\<close>: the record passes the check of
  \<open>readObservations\<close>, \<open>readSession\<close> reads \<open>obs.data.path\<close>, and the \<open>TypeError\<close> leaves
  \<open>endSession\<close>.
\<close>

theorem endSession_throws_without_data:
  "readSessionMetadata demo_nodata_store ''s1'' = Some (demo_metadata Completed)
   \<and> mStatus (demo_metadata Completed) = Completed
   \<and> readObservations demo_parse3 demo_nodata_store ''s1'' = [demo_obs3]
   \<and> endSession demo_parse3 900000 900001 demo_nodata_store ''s1'' End
       = (Inl TypeError, demo_nodata_store)"
proof -
  have c: "count_observations [demo_obs3] ([], 0, 0) = Inl TypeError"
    by (simp add: demo_obs3_def)
  have "readSession demo_parse3 demo_nodata_store ''s1'' = Inl TypeError"
    unfolding readSession_def demo_nodata_metadata demo_nodata_read Let_def c by simp
  then have "endSession demo_parse3 900000 900001 demo_nodata_store ''s1'' End
       = (Inl TypeError, demo_nodata_store)"
    by (simp add: endSession_def demo_nodata_metadata demo_metadata_def)
  with demo_nodata_metadata demo_nodata_read show ?thesis
    by (simp add: demo_metadata_def)
qed

lemma demo_ended_read: "readObservations demo_parse demo_ended_store ''s1'' = [demo_obs1, demo_obs2]"
proof -
  have "split_lines (join_lines [demo_line1, demo_bad_line, demo_line2, []])
          = [demo_line1, demo_bad_line, demo_line2, []]"
    by (rule split_join_lines) (auto simp: demo_line1_def demo_line2_def demo_bad_line_def)
  moreover have "parse_line demo_parse demo_bad_line = None"
    by (simp add: parse_line_def demo_trim demo_parse_def demo_lines_differ)
  moreover have "parse_line demo_parse [] = None"
    by (simp add: parse_line_def trim_def)
  ultimately show ?thesis
    by (simp add: readObservations_def demo_ended_store_def demo_parse_lines)
qed

lemma demo_ended_metadata:
  "readSessionMetadata demo_ended_store ''s1'' = Some (demo_metadata Completed)"
  by (simp add: readSessionMetadata_def demo_ended_store_def demo_store_def)

lemma demo_ended_session_read:
  "readSession demo_parse demo_ended_store ''s1'' = Inr (Some demo_ended_session)"
proof -
  have c: "count_observations [demo_obs1, demo_obs2] ([], 0, 0) = Inr ([JStr ''/a.ts''], 1, 1)"
    by (simp add: demo_obs1_def demo_obs2_def set_add_def)
  show ?thesis
    unfolding readSession_def demo_ended_metadata demo_ended_read Let_def c
    by (simp add: demo_metadata_def demo_ended_session_def)
qed

theorem endSession_terminal_witness:
  "readSessionMetadata demo_ended_store ''s1'' = Some (demo_metadata Completed)
   \<and> mStatus (demo_metadata Completed) = Completed
   \<and> readObservations demo_parse demo_ended_store ''s1'' = [demo_obs1, demo_obs2]
   \<and> \<not> data_missing demo_obs1 \<and> \<not> data_missing demo_obs2
   \<and> endSession demo_parse 900000 900001 demo_ended_store ''s1'' End
       = (Inr (Some demo_ended_session), demo_ended_store)
   \<and> sStatus demo_ended_session = Completed
   \<and> sEndTime demo_ended_session = mEndTime (demo_metadata Completed)
   \<and> sDurationMinutes demo_ended_session = mDurationMinutes (demo_metadata Completed)"
proof -
  have s: "mStatus (demo_metadata Completed) = Completed \<or> mStatus (demo_metadata Completed) = Stopped"
    by (simp add: demo_metadata_def)
  have d: "\<not> data_missing demo_obs1 \<and> \<not> data_missing demo_obs2"
    by (simp add: data_missing_def has_type_def demo_obs1_def demo_obs2_def)
  then have h: "\<forall>ob \<in> set (readObservations demo_parse demo_ended_store ''s1''). \<not> data_missing ob"
    by (simp add: demo_ended_read)
  from endSession_terminal [of demo_ended_store "''s1''" "demo_metadata Completed"
                               demo_parse 900000 900001 End, OF demo_ended_metadata s] h
  obtain s' where "endSession demo_parse 900000 900001 demo_ended_store ''s1'' End
                    = (Inr (Some s'), demo_ended_store)"
    and "endSession demo_parse 900000 900001 demo_ended_store ''s1'' End
           = (readSession demo_parse demo_ended_store ''s1'', demo_ended_store)"
    by blast
  then have "endSession demo_parse 900000 900001 demo_ended_store ''s1'' End
       = (Inr (Some demo_ended_session), demo_ended_store)"
    by (simp add: demo_ended_session_read)
  with demo_ended_metadata demo_ended_read d show ?thesis
    by (simp add: demo_metadata_def demo_ended_session_def)
qed

section \<open>The sweep of stale sessions\<close>

lemma getSessionLastActivity_max:
  "getSessionLastActivity st sid = key_last_activity st (safeSessionFilename sid)"
  by (auto simp: getSessionLastActivity_def key_last_activity_def Let_def max_def
           split: option.splits)

lemma clearSessionFile_result:
  "clearSessionFile env maxWaitMs st sid = Some st' \<Longrightarrow>
     metaFile (st' (safeSessionFilename sid)) = None
     \<and> obsFile (st' (safeSessionFilename sid)) = None
     \<and> (\<forall>k. k \<noteq> safeSessionFilename sid \<longrightarrow> st' k = st k)"
  by (auto simp: clearSessionFile_def Let_def split: option.splits if_splits)

lemma readSession_Some_stored:
  "readSession parse st sid = Inr (Some s) \<Longrightarrow>
     \<exists>m. stored_metadata st (safeSessionFilename sid) = Some m \<and> sId s = mId m"
  by (auto simp: readSession_def readSessionMetadata_def stored_metadata_def Let_def
           split: option.splits sum.splits prod.splits contents.splits meta_text.splits)

lemma stored_metadata_metaFile: "stored_metadata st k = Some m \<Longrightarrow> metaFile (st k) \<noteq> None"
  by (auto simp: stored_metadata_def split: option.splits)

lemma swept_refl: "swept now maxAge st st"
  by (simp add: swept_def)

lemma swept_clear:
  assumes sw: "swept now maxAge st st0"
      and cl: "clearSessionFile env maxWaitMs st0 sid = Some st1"
      and stale: "now - key_last_activity st0 (safeSessionFilename sid) > maxAge"
  shows "swept now maxAge st st1"
  unfolding swept_def
proof
  fix k
  note c = clearSessionFile_result[OF cl]
  show "st1 k = st k \<or> (metaFile (st1 k) = None \<and> obsFile (st1 k) = None
                         \<and> now - key_last_activity st k > maxAge)"
  proof (cases "k = safeSessionFilename sid")
    case False
    with c have "st1 k = st0 k" by simp
    with sw show ?thesis by (simp add: swept_def)
  next
    case True
    from sw have "st0 k = st k \<or> now - key_last_activity st k > maxAge"
      by (auto simp: swept_def)
    moreover have "st0 k = st k \<Longrightarrow> key_last_activity st0 k = key_last_activity st k"
      by (simp add: key_last_activity_def)
    ultimately have "now - key_last_activity st k > maxAge"
      using stale True by auto
    with c True show ?thesis by simp
  qed
qed

lemma found_from_stale:
  assumes sw: "swept now maxAge st st0"
      and rd: "readSession parse st0 sid = Inr (Some s)"
      and stale: "now - key_last_activity st0 (safeSessionFilename sid) > maxAge"
  shows "from_stale now maxAge st s"
proof -
  from readSession_Some_stored[OF rd] obtain m
    where m: "stored_metadata st0 (safeSessionFilename sid) = Some m" "sId s = mId m" by blast
  from stored_metadata_metaFile[OF m(1)] sw
  have same: "st0 (safeSessionFilename sid) = st (safeSessionFilename sid)"
    by (auto simp: swept_def)
  then have "stored_metadata st (safeSessionFilename sid) = Some m"
    using m(1) by (simp add: stored_metadata_def)
  moreover have "now - key_last_activity st (safeSessionFilename sid) > maxAge"
    using stale same by (simp add: key_last_activity_def)
  ultimately show ?thesis using m(2) unfolding from_stale_def by blast
qed

lemma from_stale_finalized:
  "from_stale now maxAge st s \<Longrightarrow>
   from_stale now maxAge st (s\<lparr>sStatus := Stopped, sEndTime := Some tEnd\<rparr>)"
  by (simp add: from_stale_def)

lemma cleanup_loop_swept:
  assumes "cleanup_loop parse now maxAge tEnd files stale0 st0 = Some (res, st')"
      and "swept now maxAge st st0"
      and "\<forall>s \<in> set stale0. from_stale now maxAge st s"
  shows "swept now maxAge st st' \<and> (\<forall>s \<in> set res. from_stale now maxAge st s)"
  using assms
proof (induction files arbitrary: stale0 st0)
  case Nil
  then show ?case by simp
next
  case (Cons entry files)
  obtain name env where entry: "entry = (name, env)" by (cases entry)
  show ?case
  proof (cases "stored_metadata st0 name")
    case None
    with Cons.prems entry have "cleanup_loop parse now maxAge tEnd files stale0 st0 = Some (res, st')"
      by simp
    from Cons.IH[OF this Cons.prems(2,3)] show ?thesis .
  next
    case (Some metadata)
    let ?sid = "mId metadata"
    show ?thesis
    proof (cases "now - getSessionLastActivity st0 ?sid > maxAge")
      case False
      with Cons.prems entry Some
      have "cleanup_loop parse now maxAge tEnd files stale0 st0 = Some (res, st')"
        by (simp add: Let_def)
      from Cons.IH[OF this Cons.prems(2,3)] show ?thesis .
    next
      case True
      then have stale: "now - key_last_activity st0 (safeSessionFilename ?sid) > maxAge"
        by (simp add: getSessionLastActivity_max)
      show ?thesis
      proof (cases "readSession parse st0 ?sid")
        case (Inl e)
        with Cons.prems entry Some True
        have "cleanup_loop parse now maxAge tEnd files stale0 st0 = Some (res, st')"
          by (simp add: Let_def)
        from Cons.IH[OF this Cons.prems(2,3)] show ?thesis .
      next
        case (Inr found)
        let ?stale1 = "case found of
                         None \<Rightarrow> stale0
                       | Some session \<Rightarrow>
                           stale0 @ [if sStatus session = Active
                                     then session\<lparr>sStatus := Stopped, sEndTime := Some tEnd\<rparr>
                                     else session]"
        from Cons.prems(1) entry Some True Inr obtain st1 where
          cl: "clearSessionFile env 5000 st0 ?sid = Some st1" and
          rest: "cleanup_loop parse now maxAge tEnd files ?stale1 st1 = Some (res, st')"
          by (auto simp: Let_def split: option.splits)
        have sw1: "swept now maxAge st st1"
          using Cons.prems(2) cl stale by (rule swept_clear)
        have "\<forall>s \<in> set ?stale1. from_stale now maxAge st s"
        proof (cases found)
          case None
          with Cons.prems(3) show ?thesis by simp
        next
          case (Some session)
          have "from_stale now maxAge st session"
            using Cons.prems(2) Inr[unfolded Some] stale by (rule found_from_stale)
          with Cons.prems(3) Some show ?thesis
            by (auto simp: from_stale_finalized)
        qed
        from Cons.IH[OF rest sw1 this] show ?thesis .
      qed
    qed
  qed
qed

text \<open>The sweep returns whenever each wait of \<open>clearSessionFile\<close> ends within its polls.\<close>

lemma waitForPendingJobs_ends:
  "\<exists>p \<in> set polls. \<not> (pollTime p - startTime < maxWaitMs)
                      \<or> getPendingJobCount (pollFile p) True \<le> 0 \<Longrightarrow>
   waitForPendingJobs startTime maxWaitMs polls \<noteq> None"
  by (induction polls) auto

lemma cleanup_loop_returns:
  "\<forall>(name, env) \<in> set files. waitForPendingJobs (waitStart env) 5000 (waitPolls env) \<noteq> None \<Longrightarrow>
   cleanup_loop parse now maxAge tEnd files stale0 st0 \<noteq> None"
proof (induction files arbitrary: stale0 st0)
  case Nil
  then show ?case by simp
next
  case (Cons entry files)
  obtain name env where entry: "entry = (name, env)" by (cases entry)
  from Cons.prems entry have w: "waitForPendingJobs (waitStart env) 5000 (waitPolls env) \<noteq> None"
    by simp
  have rest: "cleanup_loop parse now maxAge tEnd files s t \<noteq> None" for s t
    using Cons.prems by (intro Cons.IH) simp
  from w obtain r where r: "waitForPendingJobs (waitStart env) 5000 (waitPolls env) = Some r"
    by blast
  have rest': "\<exists>a b. cleanup_loop parse now maxAge tEnd files s t = Some (a, b)" for s t
    using rest[of s t] by auto
  show ?case
    unfolding entry
    by (simp add: Let_def clearSessionFile_def r rest' split: option.splits sum.splits)
qed

text \<open>
  Claim C5: \<open>getSessionLastActivity\<close> is the later of the modification times of the
  metadata file and of the log (of those that exist). When \<open>cleanupStaleSessions\<close> returns,
  the files under a derived name have changed only if that time was more than
  \<open>maxAgeHours\<close> before \<open>now\<close>; so a session whose log was modified within \<open>maxAgeHours\<close>
  keeps all its files, however old its metadata file is; and each session in the list
  that is returned was stored with no activity within \<open>maxAgeHours\<close>.
\<close>

theorem sweep_spares_recent_log:
  assumes "cleanupStaleSessions parse now tEnd maxAgeHours listing st = Some (staleSessions, st')"
  shows "getSessionLastActivity st sid = key_last_activity st (safeSessionFilename sid)
         \<and> (st' k \<noteq> st k \<longrightarrow> now - key_last_activity st k > maxAgeHours * 60 * 60 * 1000)
         \<and> (\<forall>f. obsFile (st k) = Some f \<and> now - mtimeMs f \<le> maxAgeHours * 60 * 60 * 1000
                 \<longrightarrow> st' k = st k)
         \<and> (\<forall>s \<in> set staleSessions. from_stale now (maxAgeHours * 60 * 60 * 1000) st s)"
proof -
  let ?maxAge = "maxAgeHours * 60 * 60 * 1000"
  have sw: "swept now ?maxAge st st' \<and> (\<forall>s \<in> set staleSessions. from_stale now ?maxAge st s)"
  proof (cases listing)
    case None
    with assms show ?thesis by (simp add: cleanupStaleSessions_def swept_refl)
  next
    case (Some files)
    with assms have "cleanup_loop parse now ?maxAge tEnd files [] st = Some (staleSessions, st')"
      by (simp add: cleanupStaleSessions_def Let_def)
    then show ?thesis
      by (rule cleanup_loop_swept) (simp_all add: swept_refl)
  qed
  then have changed: "st' k \<noteq> st k \<Longrightarrow> now - key_last_activity st k > ?maxAge"
    by (auto simp: swept_def)
  have recent: "st' k = st k" if "obsFile (st k) = Some f" "now - mtimeMs f \<le> ?maxAge" for f
  proof (rule ccontr)
    assume "st' k \<noteq> st k"
    then have "now - key_last_activity st k > ?maxAge" by (rule changed)
    moreover have "mtimeMs f \<le> key_last_activity st k"
      using that(1) by (simp add: key_last_activity_def)
    ultimately show False using that(2) by linarith
  qed
  from sw changed recent getSessionLastActivity_max show ?thesis by blast
qed

lemma demo_last_activity: "key_last_activity demo_log_store (safeSessionFilename ''s1'') = 300000"
  by (simp add: key_last_activity_def demo_log_store_def demo_store_def)

lemma demo_stored: "stored_metadata demo_log_store (safeSessionFilename ''s1'') = Some (demo_metadata Active)"
  by (simp add: stored_metadata_def demo_log_store_def demo_store_def)

lemma demo_metadata_id: "mId (demo_metadata s) = ''s1''"
  by (simp add: demo_metadata_def)

lemma demo_sweep_recent:
  "cleanupStaleSessions demo_parse 86650000 86650001 24 demo_listing demo_log_store
     = Some ([], demo_log_store)"
  by (simp add: cleanupStaleSessions_def demo_listing_def demo_stored demo_metadata_id
                getSessionLastActivity_max demo_last_activity)

lemma demo_clear:
  "clearSessionFile demo_clear_env 5000 demo_log_store ''s1''
     = Some (demo_log_store(safeSessionFilename ''s1'' := no_files))"
  by (simp add: clearSessionFile_def demo_clear_env_def getPendingJobCount_def Let_def
                demo_log_store_def demo_store_def empty_store_def no_files_def)

lemma demo_sweep_stale:
  "cleanupStaleSessions demo_parse 90000000 90000001 24 demo_listing demo_log_store
     = Some ([demo_session\<lparr>sStatus := Stopped, sEndTime := Some 90000001\<rparr>],
             demo_log_store(safeSessionFilename ''s1'' := no_files))"
  by (simp add: cleanupStaleSessions_def demo_listing_def demo_stored demo_metadata_id
                getSessionLastActivity_max demo_last_activity demo_log_session demo_clear
                demo_session_def)

theorem sweep_spares_recent_log_witness:
  "cleanupStaleSessions demo_parse 86650000 86650001 24 demo_listing demo_log_store
     = Some ([], demo_log_store)
   \<and> metaFile (demo_log_store (safeSessionFilename ''s1''))
       = Some \<lparr>mtimeMs = 200000, contents = Contents (MetaJson (demo_metadata Active))\<rparr>
   \<and> 86650000 - 200000 > (24::int) * 60 * 60 * 1000
   \<and> map_option mtimeMs (obsFile (demo_log_store (safeSessionFilename ''s1''))) = Some 300000
   \<and> 86650000 - 300000 \<le> (24::int) * 60 * 60 * 1000
   \<and> getSessionLastActivity demo_log_store ''s1'' = 300000
   \<and> cleanupStaleSessions demo_parse 90000000 90000001 24 demo_listing demo_log_store
       = Some ([demo_session\<lparr>sStatus := Stopped, sEndTime := Some 90000001\<rparr>],
               demo_log_store(safeSessionFilename ''s1'' := no_files))
   \<and> (demo_log_store(safeSessionFilename ''s1'' := no_files)) (safeSessionFilename ''s1'')
       \<noteq> demo_log_store (safeSessionFilename ''s1'')
   \<and> 90000000 - key_last_activity demo_log_store (safeSessionFilename ''s1'')
       > 24 * 60 * 60 * 1000
   \<and> from_stale 90000000 (24 * 60 * 60 * 1000) demo_log_store
        (demo_session\<lparr>sStatus := Stopped, sEndTime := Some 90000001\<rparr>)"
proof -
  note recent = sweep_spares_recent_log [OF demo_sweep_recent, of "''s1''" "safeSessionFilename ''s1''"]
  note stale = sweep_spares_recent_log [OF demo_sweep_stale, of "''s1''" "safeSessionFilename ''s1''"]
  have m: "metaFile (demo_log_store (safeSessionFilename ''s1''))
       = Some \<lparr>mtimeMs = 200000, contents = Contents (MetaJson (demo_metadata Active))\<rparr>"
    by (simp add: demo_log_store_def demo_store_def no_files_def)
  have o: "map_option mtimeMs (obsFile (demo_log_store (safeSessionFilename ''s1''))) = Some 300000"
    by (simp add: demo_log_store_def)
  have d: "(demo_log_store(safeSessionFilename ''s1'' := no_files)) (safeSessionFilename ''s1'')
       \<noteq> demo_log_store (safeSessionFilename ''s1'')"
  proof
    assume "(demo_log_store(safeSessionFilename ''s1'' := no_files)) (safeSessionFilename ''s1'')
              = demo_log_store (safeSessionFilename ''s1'')"
    then have "metaFile no_files = metaFile (demo_log_store (safeSessionFilename ''s1''))"
      by simp
    then show False by (simp add: m no_files_def)
  qed
  have la: "getSessionLastActivity demo_log_store ''s1'' = 300000"
    using recent demo_last_activity by simp
  have st: "90000000 - key_last_activity demo_log_store (safeSessionFilename ''s1'')
       > 24 * 60 * 60 * 1000"
    using stale d by blast
  have fs: "from_stale 90000000 (24 * 60 * 60 * 1000) demo_log_store
        (demo_session\<lparr>sStatus := Stopped, sEndTime := Some 90000001\<rparr>)"
    using stale by simp
  from demo_sweep_recent demo_sweep_stale m o d la st fs show ?thesis by simp
qed

end
